theory Spec2Isabelle
  imports
    Main
    "HOL-Library.Char_ord"
    "HOL-Library.List_Lexorder"
    "HOL-Library.Option_ord"
    "HOL-Library.Product_Lexorder"
    "HOL-Library.Sublist"
begin

section \<open>The persistent store\<close>

text \<open>
  The store is the SQLite database behind \<^verbatim>\<open>self._conn\<close>. Each table is the list of its
  rows, in table order (\<open>t_nodes\<close> is the table \<^verbatim>\<open>nodes\<close>). The columns are named after
  the aliases the SQL text of \<^verbatim>\<open>acdcli/cache/query.py\<close> uses: \<^verbatim>\<open>n.id\<close> is \<open>n_id\<close>,
  \<^verbatim>\<open>p.parent\<close> is \<open>p_parent\<close>, \<^verbatim>\<open>f.md5\<close> is \<open>f_md5\<close>. The name of a node and the columns
  of a file can be NULL and are options; ids, types and statuses are taken as not NULL.
  Text is a byte string, compared bytewise as SQLite's BINARY collation does.
\<close>

record nodes_row =
  n_id :: string
  n_type :: string
  n_name :: "string option"
  n_description :: "string option"
  n_created :: string
  n_modified :: string
  n_updated :: string
  n_status :: string

record parentage_row =
  p_parent :: string
  p_child :: string

record files_row =
  f_id :: string
  f_md5 :: "string option"
  f_size :: "int option"
  f_version :: "int option"

record properties_row =
  pr_id :: string
  pr_owner :: string
  pr_key :: string
  pr_value :: "string option"

record content_row =
  c_id :: string
  c_version :: int
  c_value :: "string option"
  c_accessed :: string

record store =
  t_nodes :: "nodes_row list"
  t_parentage :: "parentage_row list"
  t_files :: "files_row list"
  t_properties :: "properties_row list"
  t_content :: "content_row list"

text \<open>
  A result row is either a row of \<^verbatim>\<open>SELECT n.*, f.*\<close> (the file columns are NULL when the
  left outer join finds no file) or a row of \<^verbatim>\<open>SELECT n.*\<close>, which has no file columns.
\<close>

datatype row = Joined nodes_row "files_row option" | Plain nodes_row

fun row_n :: "row \<Rightarrow> nodes_row" where
  "row_n (Joined n f) = n"
| "row_n (Plain n) = n"

text \<open>\<^verbatim>\<open>c.fetchone()\<close>: the next row of the cursor, or None when there is none left.\<close>

fun fetchone :: "'a list \<Rightarrow> 'a option \<times> 'a list" where
  "fetchone [] = (None, [])"
| "fetchone (r # rs) = (Some r, rs)"

subsection \<open>The joins\<close>

text \<open>\<^verbatim>\<open>nodes n JOIN parentage p ON n.id = p.child WHERE p.parent = (?)\<close>\<close>

definition children_of :: "store \<Rightarrow> string \<Rightarrow> nodes_row list" where
  "children_of s parent =
     concat (map (\<lambda>n. map (\<lambda>p. n)
       (filter (\<lambda>p. n_id n = p_child p \<and> p_parent p = parent) (t_parentage s))) (t_nodes s))"

text \<open>\<^verbatim>\<open>nodes n JOIN parentage p ON n.id = p.parent WHERE p.child = (?)\<close>\<close>

definition parents_of :: "store \<Rightarrow> string \<Rightarrow> nodes_row list" where
  "parents_of s child =
     concat (map (\<lambda>n. map (\<lambda>p. n)
       (filter (\<lambda>p. n_id n = p_parent p \<and> p_child p = child) (t_parentage s))) (t_nodes s))"

text \<open>\<^verbatim>\<open>LEFT OUTER JOIN files f ON n.id = f.id\<close>\<close>

definition left_join_files :: "store \<Rightarrow> nodes_row list \<Rightarrow> row list" where
  "left_join_files s ns =
     concat (map (\<lambda>n. case filter (\<lambda>f. n_id n = f_id f) (t_files s) of
                         [] \<Rightarrow> [Joined n None]
                       | fs \<Rightarrow> map (\<lambda>f. Joined n (Some f)) fs) ns)"

subsection \<open>The SQL statements\<close>

text \<open>
  \<^verbatim>\<open>ORDER BY\<close> is a stable sort of the joined rows: SQL leaves the order of rows with equal
  keys open, and the model takes the order of the tables for it, where SQLite may follow
  an index. NULL sorts first. \<open>lower\<close> folds the ASCII letters, as SQLite's \<^verbatim>\<open>LOWER\<close> does;
  Python's \<^verbatim>\<open>str.lower\<close>, which \<^verbatim>\<open>get_conflicting_node\<close> applies to its argument, also
  folds letters outside ASCII.
\<close>

definition lower_char :: "char \<Rightarrow> char" where
  "lower_char c =
     (if CHR ''A'' \<le> c \<and> c \<le> CHR ''Z'' then char_of (of_char c + (32::nat)) else c)"

definition lower :: "string \<Rightarrow> string" where
  "lower s = map lower_char s"

definition CONFLICTING_NODE_SQL :: "store \<Rightarrow> string \<Rightarrow> string \<Rightarrow> row list" where
  "CONFLICTING_NODE_SQL s parent_id lname =
     sort_key (\<lambda>r. n_name (row_n r))
       (left_join_files s
         (filter (\<lambda>n. map_option lower (n_name n) = Some lname \<and> n_status n = ''AVAILABLE'')
           (children_of s parent_id)))"

definition CHILDREN_SQL :: "store \<Rightarrow> string \<Rightarrow> row list" where
  "CHILDREN_SQL s parent =
     sort_key (\<lambda>r. n_name (row_n r)) (left_join_files s (children_of s parent))"

definition PARENTS_SQL :: "store \<Rightarrow> string \<Rightarrow> row list" where
  "PARENTS_SQL s child =
     sort_key (\<lambda>r. n_name (row_n r)) (left_join_files s (parents_of s child))"

definition CHILDRENS_NAMES_SQL :: "store \<Rightarrow> string \<Rightarrow> string option list" where
  "CHILDRENS_NAMES_SQL s parent =
     sort_key (\<lambda>x. x)
       (map n_name (filter (\<lambda>n. n_status n = ''AVAILABLE'') (children_of s parent)))"

definition NUM_CHILDREN_SQL :: "store \<Rightarrow> string \<Rightarrow> nat" where
  "NUM_CHILDREN_SQL s parent =
     length (filter (\<lambda>n. n_status n = ''AVAILABLE'') (children_of s parent))"

definition NUM_PARENTS_SQL :: "store \<Rightarrow> string \<Rightarrow> nat" where
  "NUM_PARENTS_SQL s child =
     length (filter (\<lambda>n. n_status n = ''AVAILABLE'') (parents_of s child))"

definition NUM_NODES_SQL :: "store \<Rightarrow> nat" where
  "NUM_NODES_SQL s = length (t_nodes s)"

definition NUM_FILES_SQL :: "store \<Rightarrow> nat" where
  "NUM_FILES_SQL s = length (t_files s)"

definition NUM_FOLDERS_SQL :: "store \<Rightarrow> nat" where
  "NUM_FOLDERS_SQL s = length (filter (\<lambda>n. n_type n = ''folder'') (t_nodes s))"

definition CHILD_OF_SQL :: "store \<Rightarrow> string \<Rightarrow> string \<Rightarrow> row list" where
  "CHILD_OF_SQL s name_arg parent =
     sort_key (\<lambda>r. n_status (row_n r))
       (left_join_files s
         (filter (\<lambda>n. n_name n = Some name_arg) (children_of s parent)))"

definition NODE_BY_ID_SQL :: "store \<Rightarrow> string \<Rightarrow> row list" where
  "NODE_BY_ID_SQL s i = left_join_files s (filter (\<lambda>n. n_id n = i) (t_nodes s))"

definition PROPERTY_BY_ID_SQL ::
  "store \<Rightarrow> string \<Rightarrow> string \<Rightarrow> string \<Rightarrow> properties_row list" where
  "PROPERTY_BY_ID_SQL s i owner k =
     filter (\<lambda>r. pr_id r = i \<and> pr_owner r = owner \<and> pr_key r = k) (t_properties s)"

definition CONTENT_BY_ID_SQL :: "store \<Rightarrow> string \<Rightarrow> int \<Rightarrow> content_row list" where
  "CONTENT_BY_ID_SQL s i v = filter (\<lambda>r. c_id r = i \<and> c_version r = v) (t_content s)"

text \<open>
  \<^verbatim>\<open>UPDATE content SET accessed=? WHERE id=?\<close>, the one statement of the module that writes.
  Its only call, in \<^verbatim>\<open>get_content\<close>, is commented out in the source.
\<close>

definition CONTENT_ACCESSED_SQL :: "store \<Rightarrow> string \<Rightarrow> string \<Rightarrow> store" where
  "CONTENT_ACCESSED_SQL s t i =
     s\<lparr>t_content := map (\<lambda>r. if c_id r = i then r\<lparr>c_accessed := t\<rparr> else r) (t_content s)\<rparr>"

text \<open>
  \<^verbatim>\<open>SELECT SUM(size) FROM files\<close>: NULL sizes are skipped, and the sum of no value is NULL.
  The sum is an unbounded integer; SQLite raises an error when it passes 64 bits.
\<close>

definition USAGE_SQL :: "store \<Rightarrow> int option" where
  "USAGE_SQL s =
     (case List.map_filter f_size (t_files s) of [] \<Rightarrow> None | xs \<Rightarrow> Some (sum_list xs))"

text \<open>
  SQLite's \<^verbatim>\<open>LIKE\<close>: \<^verbatim>\<open>%\<close> matches any run of characters, \<^verbatim>\<open>_\<close> any single one, and
  ASCII letters match without regard to case. A character is a byte here, where SQLite
  takes a UTF-8 character.
\<close>

fun like :: "string \<Rightarrow> string \<Rightarrow> bool" where
  "like [] s = (s = [])"
| "like (p # ps) [] = (p = CHR ''%'' \<and> like ps [])"
| "like (p # ps) (c # cs) =
     (if p = CHR ''%'' then like ps (c # cs) \<or> like (p # ps) cs
      else if p = CHR ''_'' then like ps cs
      else lower_char p = lower_char c \<and> like ps cs)"

definition FIND_BY_NAME_SQL :: "store \<Rightarrow> string \<Rightarrow> row list" where
  "FIND_BY_NAME_SQL s pat =
     sort_key (\<lambda>r. n_name (row_n r))
       (left_join_files s
         (filter (\<lambda>n. case n_name n of None \<Rightarrow> False | Some nm \<Rightarrow> like pat nm) (t_nodes s)))"

text \<open>
  \<^verbatim>\<open>REGEXP\<close> is a user function that the connection registers outside this module; it is
  the parameter \<open>regexp\<close>, called with the pattern and the name.
\<close>

definition FIND_BY_REGEX_SQL ::
  "(string \<Rightarrow> string \<Rightarrow> bool) \<Rightarrow> store \<Rightarrow> string \<Rightarrow> row list" where
  "FIND_BY_REGEX_SQL regexp s pat =
     sort_key (\<lambda>r. n_name (row_n r))
       (left_join_files s
         (filter (\<lambda>n. case n_name n of None \<Rightarrow> False | Some nm \<Rightarrow> regexp pat nm) (t_nodes s)))"

definition FIND_BY_MD5_SQL :: "store \<Rightarrow> string \<Rightarrow> row list" where
  "FIND_BY_MD5_SQL s m =
     sort_key (\<lambda>r. n_name (row_n r))
       (filter (\<lambda>r. case r of Joined n (Some f) \<Rightarrow> f_md5 f = Some m | _ \<Rightarrow> False)
         (left_join_files s (t_nodes s)))"

definition FIND_FIRST_PARENT_SQL :: "store \<Rightarrow> string \<Rightarrow> row list" where
  "FIND_FIRST_PARENT_SQL s child =
     map Plain (sort_key (\<lambda>n. (n_status n, n_id n)) (parents_of s child))"

definition FILE_SIZE_EXISTS_SQL :: "store \<Rightarrow> int \<Rightarrow> nat" where
  "FILE_SIZE_EXISTS_SQL s sz =
     length (concat (map (\<lambda>f. filter (\<lambda>n. n_id n = f_id f \<and> n_status n = ''AVAILABLE'') (t_nodes s))
       (filter (\<lambda>f. f_size f = Some sz) (t_files s))))"

section \<open>The Node class\<close>

text \<open>
  The fields of \<^verbatim>\<open>Node\<close>, under the names of the source; \<open>id\<close>, \<open>type\<close>, \<open>mod\<close> and \<open>size\<close>
  carry a prime. The two timestamps stay the strings of the row: the properties that
  parse them on first access, and \<^verbatim>\<open>__lt__\<close> and \<^verbatim>\<open>__repr__\<close>, are not part of the
  model. A row without file columns raises IndexError on \<^verbatim>\<open>row['md5']\<close>, \<^verbatim>\<open>row['size']\<close>
  and \<^verbatim>\<open>row['version']\<close>, which the constructor turns into None, 0 and 0.
\<close>

record Node =
  id' :: string
  type' :: string
  name :: "string option"
  description :: "string option"
  cre :: string
  mod' :: string
  updated :: string
  status :: string
  md5 :: "string option"
  size' :: "int option"
  version :: "int option"

definition Node_init :: "row \<Rightarrow> Node" where
  "Node_init r =
     (let n = row_n r in
      \<lparr> id' = n_id n, type' = n_type n, name = n_name n, description = n_description n,
        cre = n_created n, mod' = n_modified n, updated = n_updated n, status = n_status n,
        md5 = (case r of Joined _ (Some f) \<Rightarrow> f_md5 f | _ \<Rightarrow> None),
        size' = (case r of Joined _ (Some f) \<Rightarrow> f_size f | Joined _ None \<Rightarrow> None
                 | Plain _ \<Rightarrow> Some 0),
        version = (case r of Joined _ (Some f) \<Rightarrow> f_version f | Joined _ None \<Rightarrow> None
                 | Plain _ \<Rightarrow> Some 0) \<rparr>)"

definition is_folder :: "Node \<Rightarrow> bool" where
  "is_folder n = (type' n = ''folder'')"

definition is_file :: "Node \<Rightarrow> bool" where
  "is_file n = (type' n = ''file'')"

definition is_available :: "Node \<Rightarrow> bool" where
  "is_available n = (status n = ''AVAILABLE'')"

definition is_trashed :: "Node \<Rightarrow> bool" where
  "is_trashed n = (status n = ''TRASH'')"

text \<open>\<^verbatim>\<open>self.name if self.name else ''\<close>: None and the empty string are both false.\<close>

definition simple_name :: "Node \<Rightarrow> string option" where
  "simple_name n =
     (if is_file n then name n
      else Some ((case name n of None \<Rightarrow> [] | Some nm \<Rightarrow> nm) @ ''/''))"

section \<open>The query mixin\<close>

text \<open>
  The object that mixes \<^verbatim>\<open>QueryMixin\<close> in: its connection, its root id and the two caches.
  Every method takes the state and returns the state it leaves. The caches are accessed
  under \<^verbatim>\<open>node_cache_lock\<close>; the model is of one thread, and takes the lock as reentrant
  (\<^verbatim>\<open>resolve\<close> calls \<^verbatim>\<open>get_node\<close> while it holds it).
\<close>

record state =
  conn :: store
  root_id :: string
  node_id_to_node_cache :: "string \<rightharpoonup> Node"
  path_to_node_id_cache :: "string \<rightharpoonup> string"

text \<open>The exceptions the methods can raise on a store that answers.\<close>

datatype error = TypeError | AttributeError

subsection \<open>\<^verbatim>\<open>os.path.split\<close> and \<^verbatim>\<open>os.path.join\<close> (posixpath)\<close>

definition rstrip_sep :: "string \<Rightarrow> string" where
  "rstrip_sep s = rev (dropWhile (\<lambda>c. c = CHR ''/'') (rev s))"

text \<open>
  \<^verbatim>\<open>i = p.rfind('/') + 1; head, tail = p[:i], p[i:]\<close>, and the head loses its trailing
  slashes unless it consists of slashes only.
\<close>

definition os_path_split :: "string \<Rightarrow> string \<times> string" where
  "os_path_split p =
     (let head = rev (dropWhile (\<lambda>c. c \<noteq> CHR ''/'') (rev p));
          tail = rev (takeWhile (\<lambda>c. c \<noteq> CHR ''/'') (rev p))
      in (if head \<noteq> [] \<and> head \<noteq> replicate (length head) (CHR ''/'')
          then rstrip_sep head else head, tail))"

definition os_path_join :: "string \<Rightarrow> string \<Rightarrow> string" where
  "os_path_join a b =
     (if take 1 b = ''/'' then b
      else if a = [] \<or> (a \<noteq> [] \<and> last a = CHR ''/'') then a @ b
      else a @ ''/'' @ b)"

subsection \<open>Lookups by id\<close>

definition get_node :: "state \<Rightarrow> string \<Rightarrow> Node option \<times> state" where
  "get_node \<sigma> i =
     (case node_id_to_node_cache \<sigma> i of
        Some n \<Rightarrow> (Some n, \<sigma>)
      | None \<Rightarrow>
          (case fst (fetchone (NODE_BY_ID_SQL (conn \<sigma>) i)) of
             None \<Rightarrow> (None, \<sigma>)
           | Some r \<Rightarrow>
               (let n = Node_init r in
                (Some n,
                 if is_available n
                 then \<sigma>\<lparr>node_id_to_node_cache := (node_id_to_node_cache \<sigma>)(id' n \<mapsto> n)\<rparr>
                 else \<sigma>))))"

definition get_root_node :: "state \<Rightarrow> Node option \<times> state" where
  "get_root_node \<sigma> = get_node \<sigma> (root_id \<sigma>)"

definition get_conflicting_node :: "state \<Rightarrow> string \<Rightarrow> string \<Rightarrow> Node option \<times> state" where
  "get_conflicting_node \<sigma> name_arg parent_id =
     (case fst (fetchone (CONFLICTING_NODE_SQL (conn \<sigma>) parent_id (lower name_arg))) of
        None \<Rightarrow> (None, \<sigma>)
      | Some r \<Rightarrow> (Some (Node_init r), \<sigma>))"

subsection \<open>\<^verbatim>\<open>resolve\<close>\<close>

text \<open>
  A result is the exception raised or the value returned, with the state left behind.
  \<^verbatim>\<open>resolve\<close> first tries the path cache; \<^verbatim>\<open>get_node\<close> raises nothing, so a hit returns
  what \<^verbatim>\<open>get_node\<close> returns, None included. On a miss (the KeyError is swallowed) the
  path is split. The root branch reads \<^verbatim>\<open>r.id\<close> without a test for None.
\<close>

function resolve :: "state \<Rightarrow> string \<Rightarrow> bool \<Rightarrow> (error + Node option) \<times> state" where
  "resolve \<sigma> path trash =
     (case path_to_node_id_cache \<sigma> path of
        Some i \<Rightarrow> (case get_node \<sigma> i of (r, \<sigma>') \<Rightarrow> (Inr r, \<sigma>'))
      | None \<Rightarrow>
          (if snd (os_path_split path) = [] then
             (case get_root_node \<sigma> of
                (None, \<sigma>') \<Rightarrow> (Inl AttributeError, \<sigma>')
              | (Some r, \<sigma>') \<Rightarrow>
                  (Inr (Some r),
                   \<sigma>'\<lparr>node_id_to_node_cache := (node_id_to_node_cache \<sigma>')(id' r \<mapsto> r),
                      path_to_node_id_cache := (path_to_node_id_cache \<sigma>')(path \<mapsto> id' r)\<rparr>))
           else
             (case resolve \<sigma> (fst (os_path_split path)) trash of
                (Inl e, \<sigma>') \<Rightarrow> (Inl e, \<sigma>')
              | (Inr None, \<sigma>') \<Rightarrow> (Inr None, \<sigma>')
              | (Inr (Some parent), \<sigma>') \<Rightarrow>
                  (case CHILD_OF_SQL (conn \<sigma>') (snd (os_path_split path)) (id' parent) of
                     [] \<Rightarrow> (Inr None, \<sigma>')
                   | row1 # rest \<Rightarrow>
                       (let r = Node_init row1; r2 = fst (fetchone rest) in
                        if \<not> is_available r \<and> (\<not> trash \<or> r2 \<noteq> None) then (Inr None, \<sigma>')
                        else
                          (Inr (Some r),
                           \<sigma>'\<lparr>node_id_to_node_cache := (node_id_to_node_cache \<sigma>')(id' r \<mapsto> r),
                              path_to_node_id_cache :=
                                (path_to_node_id_cache \<sigma>')(path \<mapsto> id' r)\<rparr>))))))"
  by pat_completeness auto
termination
proof (relation "measure (\<lambda>(\<sigma>, path, trash). length path)", goal_cases)
  case 1
  show ?case by simp
next
  case (2 \<sigma> path trash)
  let ?h = "rev (dropWhile (\<lambda>c. c \<noteq> CHR ''/'') (rev path))"
  let ?t = "rev (takeWhile (\<lambda>c. c \<noteq> CHR ''/'') (rev path))"
  from 2 have "?t \<noteq> []" by (simp add: os_path_split_def Let_def)
  then have "0 < length ?t" by simp
  moreover have "length ?h + length ?t = length path"
    by (metis add.commute length_append length_rev takeWhile_dropWhile_id)
  ultimately have lt: "length ?h < length path" by linarith
  have "length (rstrip_sep ?h) \<le> length ?h"
    unfolding rstrip_sep_def by (simp add: length_dropWhile_le)
  with lt show ?case by (auto simp: os_path_split_def Let_def)
qed

declare resolve.simps [simp del]

definition resolve_id :: "state \<Rightarrow> string \<Rightarrow> bool \<Rightarrow> (error + string option) \<times> state" where
  "resolve_id \<sigma> path trash =
     (case resolve \<sigma> path trash of
        (Inl e, \<sigma>') \<Rightarrow> (Inl e, \<sigma>')
      | (Inr None, \<sigma>') \<Rightarrow> (Inr None, \<sigma>')
      | (Inr (Some n), \<sigma>') \<Rightarrow> (Inr (Some (id' n)), \<sigma>'))"

subsection \<open>Names, counts and children\<close>

definition childrens_names :: "state \<Rightarrow> string \<Rightarrow> string option list \<times> state" where
  "childrens_names \<sigma> folder_id = (CHILDRENS_NAMES_SQL (conn \<sigma>) folder_id, \<sigma>)"

definition get_node_count :: "state \<Rightarrow> nat \<times> state" where
  "get_node_count \<sigma> = (NUM_NODES_SQL (conn \<sigma>), \<sigma>)"

definition get_folder_count :: "state \<Rightarrow> nat \<times> state" where
  "get_folder_count \<sigma> = (NUM_FOLDERS_SQL (conn \<sigma>), \<sigma>)"

definition get_file_count :: "state \<Rightarrow> nat \<times> state" where
  "get_file_count \<sigma> = (NUM_FILES_SQL (conn \<sigma>), \<sigma>)"

text \<open>\<^verbatim>\<open>r[0] if r and r[0] else 0\<close>: a NULL sum and a sum of 0 both give 0.\<close>

definition calculate_usage :: "state \<Rightarrow> int \<times> state" where
  "calculate_usage \<sigma> = (case USAGE_SQL (conn \<sigma>) of None \<Rightarrow> 0 | Some u \<Rightarrow> u, \<sigma>)"

definition num_children :: "state \<Rightarrow> string \<Rightarrow> nat \<times> state" where
  "num_children \<sigma> folder_id = (NUM_CHILDREN_SQL (conn \<sigma>) folder_id, \<sigma>)"

definition num_parents :: "state \<Rightarrow> string \<Rightarrow> nat \<times> state" where
  "num_parents \<sigma> node_id = (NUM_PARENTS_SQL (conn \<sigma>) node_id, \<sigma>)"

definition get_child :: "state \<Rightarrow> string \<Rightarrow> string \<Rightarrow> Node option \<times> state" where
  "get_child \<sigma> folder_id child_name =
     (case fst (fetchone (CHILD_OF_SQL (conn \<sigma>) child_name folder_id)) of
        None \<Rightarrow> (None, \<sigma>)
      | Some r \<Rightarrow> (if is_available (Node_init r) then Some (Node_init r) else None, \<sigma>))"

text \<open>
  The second loop of \<^verbatim>\<open>list_children\<close>, over \<^verbatim>\<open>folders + files\<close>. A child whose name is
  NULL raises TypeError at \<^verbatim>\<open>folder_path + '/' + c.name\<close>, with the entries made so far
  left in the caches.
\<close>

fun prime_caches :: "state \<Rightarrow> string option \<Rightarrow> Node list \<Rightarrow> (error + unit) \<times> state" where
  "prime_caches \<sigma> folder_path [] = (Inr (), \<sigma>)"
| "prime_caches \<sigma> folder_path (c # cs) =
     (let \<sigma>1 = (if is_available c
                then \<sigma>\<lparr>node_id_to_node_cache := (node_id_to_node_cache \<sigma>)(id' c \<mapsto> c)\<rparr>
                else \<sigma>)
      in case folder_path of
           None \<Rightarrow> prime_caches \<sigma>1 folder_path cs
         | Some fp \<Rightarrow>
             (if fp = [] then prime_caches \<sigma>1 folder_path cs
              else (case name c of
                      None \<Rightarrow> (Inl TypeError, \<sigma>1)
                    | Some nm \<Rightarrow>
                        prime_caches
                          (\<sigma>1\<lparr>path_to_node_id_cache :=
                                (path_to_node_id_cache \<sigma>1)(fp @ ''/'' @ nm \<mapsto> id' c)\<rparr>)
                          folder_path cs)))"

definition list_children ::
  "state \<Rightarrow> string \<Rightarrow> bool \<Rightarrow> string option \<Rightarrow> (error + Node list \<times> Node list) \<times> state" where
  "list_children \<sigma> folder_id trash folder_path =
     (let ns = filter (\<lambda>n. is_available n \<or> trash)
                 (map Node_init (CHILDREN_SQL (conn \<sigma>) folder_id));
          files = filter is_file ns;
          folders = filter (\<lambda>n. \<not> is_file n \<and> is_folder n) ns
      in case prime_caches \<sigma> folder_path (folders @ files) of
           (Inl e, \<sigma>') \<Rightarrow> (Inl e, \<sigma>')
         | (Inr u, \<sigma>') \<Rightarrow> (Inr (folders, files), \<sigma>'))"

definition list_trashed_children ::
  "state \<Rightarrow> string \<Rightarrow> (error + Node list \<times> Node list) \<times> state" where
  "list_trashed_children \<sigma> folder_id =
     (case list_children \<sigma> folder_id True None of
        (Inl e, \<sigma>') \<Rightarrow> (Inl e, \<sigma>')
      | (Inr (folders, files), \<sigma>') \<Rightarrow>
          (Inr (filter is_trashed folders, filter is_trashed files), \<sigma>'))"

subsection \<open>Paths of a node\<close>

text \<open>
  \<^verbatim>\<open>first_path\<close> and \<^verbatim>\<open>all_path\<close> recurse along the parent edges and do not return on a
  cycle; the first argument bounds the depth of the recursion, and None is the call that
  needs a deeper one. \<^verbatim>\<open>Node(r)\<close> raises TypeError when there is no parent row, and so
  does \<^verbatim>\<open>+\<close> on None.
\<close>

fun first_path :: "nat \<Rightarrow> state \<Rightarrow> string \<Rightarrow> ((error + string option) \<times> state) option" where
  "first_path 0 \<sigma> node_id = None"
| "first_path (Suc k) \<sigma> node_id =
     (if node_id = root_id \<sigma> then Some (Inr (Some ''/''), \<sigma>)
      else
        (case fst (fetchone (FIND_FIRST_PARENT_SQL (conn \<sigma>) node_id)) of
           None \<Rightarrow> Some (Inl TypeError, \<sigma>)
         | Some r \<Rightarrow>
             (let node = Node_init r in
              if id' node = root_id \<sigma> then Some (Inr (simple_name node), \<sigma>)
              else
                (case first_path k \<sigma> (id' node) of
                   None \<Rightarrow> None
                 | Some (Inl e, \<sigma>') \<Rightarrow> Some (Inl e, \<sigma>')
                 | Some (Inr None, \<sigma>') \<Rightarrow> Some (Inl TypeError, \<sigma>')
                 | Some (Inr (Some p), \<sigma>') \<Rightarrow>
                     (case name node of
                        None \<Rightarrow> Some (Inl TypeError, \<sigma>')
                      | Some nm \<Rightarrow> Some (Inr (Some (p @ nm @ ''/'')), \<sigma>'))))))"

text \<open>
  The loop of \<^verbatim>\<open>all_path\<close> over the parent rows: \<open>rec\<close> is the recursive call on an
  available parent, \<open>ret\<close> the list built so far.
\<close>

fun for_parents ::
  "(state \<Rightarrow> string \<Rightarrow> ((error + string list) \<times> state) option) \<Rightarrow> state \<Rightarrow> row list \<Rightarrow>
   string list \<Rightarrow> ((error + string list) \<times> state) option" where
  "for_parents rec \<sigma> [] ret = Some (Inr ret, \<sigma>)"
| "for_parents rec \<sigma> (parent # rest) ret =
     (if is_available (Node_init parent) then
        (case rec \<sigma> (id' (Node_init parent)) of
           None \<Rightarrow> None
         | Some (Inl e, \<sigma>') \<Rightarrow> Some (Inl e, \<sigma>')
         | Some (Inr ps, \<sigma>') \<Rightarrow> for_parents rec \<sigma>' rest (ret @ ps))
      else for_parents rec \<sigma> rest ret)"

fun all_path ::
  "nat \<Rightarrow> state \<Rightarrow> string \<Rightarrow> string option \<Rightarrow> ((error + string list) \<times> state) option" where
  "all_path 0 \<sigma> node_id path_suffix = None"
| "all_path (Suc k) \<sigma> node_id path_suffix =
     (if node_id = root_id \<sigma> then
        (case path_suffix of
           None \<Rightarrow> Some (Inl TypeError, \<sigma>)
         | Some sfx \<Rightarrow> Some (Inr [''/'' @ sfx], \<sigma>))
      else
        (case get_node \<sigma> node_id of
           (None, \<sigma>1) \<Rightarrow> Some (Inr [], \<sigma>1)
         | (Some n, \<sigma>1) \<Rightarrow>
             (if path_suffix \<noteq> None \<and> path_suffix \<noteq> Some [] then
                (case name n of
                   None \<Rightarrow> Some (Inl TypeError, \<sigma>1)
                 | Some nm \<Rightarrow>
                     for_parents (\<lambda>\<sigma>' i. all_path k \<sigma>' i (Some (os_path_join nm (the path_suffix))))
                       \<sigma>1 (PARENTS_SQL (conn \<sigma>1) (id' n)) [])
              else
                for_parents (\<lambda>\<sigma>' i. all_path k \<sigma>' i (name n))
                  \<sigma>1 (PARENTS_SQL (conn \<sigma>1) (id' n)) [])))"

subsection \<open>Searches, properties and content\<close>

definition find_by_name :: "state \<Rightarrow> string \<Rightarrow> Node list \<times> state" where
  "find_by_name \<sigma> name_arg =
     (map Node_init (FIND_BY_NAME_SQL (conn \<sigma>) (''%'' @ name_arg @ ''%'')), \<sigma>)"

definition find_by_md5 :: "state \<Rightarrow> string \<Rightarrow> Node list \<times> state" where
  "find_by_md5 \<sigma> m = (map Node_init (FIND_BY_MD5_SQL (conn \<sigma>) m), \<sigma>)"

definition find_by_regex ::
  "(string \<Rightarrow> string \<Rightarrow> bool) \<Rightarrow> state \<Rightarrow> string \<Rightarrow> Node list \<times> state" where
  "find_by_regex regexp \<sigma> regex = (map Node_init (FIND_BY_REGEX_SQL regexp (conn \<sigma>) regex), \<sigma>)"

definition file_size_exists :: "state \<Rightarrow> int \<Rightarrow> bool \<times> state" where
  "file_size_exists \<sigma> sz = (FILE_SIZE_EXISTS_SQL (conn \<sigma>) sz \<noteq> 0, \<sigma>)"

definition get_property :: "state \<Rightarrow> string \<Rightarrow> string \<Rightarrow> string \<Rightarrow> string option \<times> state" where
  "get_property \<sigma> node_id owner_id k =
     (case fst (fetchone (PROPERTY_BY_ID_SQL (conn \<sigma>) node_id owner_id k)) of
        None \<Rightarrow> (None, \<sigma>)
      | Some r \<Rightarrow> (pr_value r, \<sigma>))"

definition get_content :: "state \<Rightarrow> string \<Rightarrow> int \<Rightarrow> string option \<times> state" where
  "get_content \<sigma> node_id v =
     (if v = 0 then (None, \<sigma>)
      else (case fst (fetchone (CONTENT_BY_ID_SQL (conn \<sigma>) node_id v)) of
              None \<Rightarrow> (None, \<sigma>)
            | Some r \<Rightarrow> (c_value r, \<sigma>)))"

subsection \<open>Object identity of nodes\<close>

text \<open>
  \<^verbatim>\<open>Node\<close> defines \<^verbatim>\<open>__hash__\<close> and no \<^verbatim>\<open>__eq__\<close>, so \<^verbatim>\<open>==\<close> on two nodes is the
  comparison of \<^verbatim>\<open>object\<close>: identity. An object is its address in a heap, the list of
  the nodes constructed so far; \<^verbatim>\<open>Node(row)\<close> allocates the next address.
  \<open>hash_str\<close> is Python's hash of a string.
\<close>

type_synonym heap = "Node list"

definition new_Node :: "heap \<Rightarrow> row \<Rightarrow> nat \<times> heap" where
  "new_Node h r = (length h, h @ [Node_init r])"

definition Node_eq :: "nat \<Rightarrow> nat \<Rightarrow> bool" where
  "Node_eq a b = (a = b)"

definition Node_hash :: "(string \<Rightarrow> int) \<Rightarrow> heap \<Rightarrow> nat \<Rightarrow> int" where
  "Node_hash hash_str h a = hash_str (id' (h ! a))"

section \<open>A small drive\<close>

text \<open>
  The store the concrete evaluations run on: the root \<open>r\<close> holds the folders \<open>a\<close> and \<open>b\<close>,
  the trashed folder \<open>c\<close> and the trashed file \<open>t\<close>; the file \<open>f\<close> has the three folders as
  parents; folder \<open>a\<close> also holds two trashed files that are both named \<open>x\<close>.
\<close>

definition mk_node :: "string \<Rightarrow> string \<Rightarrow> string option \<Rightarrow> string \<Rightarrow> nodes_row" where
  "mk_node i ty nm st =
     \<lparr> n_id = i, n_type = ty, n_name = nm, n_description = None,
       n_created = ''2016-01-01 00:00:00+00:00'', n_modified = ''2016-01-01 00:00:00+00:00'',
       n_updated = ''2016-01-01 00:00:00+00:00'', n_status = st \<rparr>"

definition drive :: store where
  "drive =
     \<lparr> t_nodes =
         [mk_node ''r'' ''folder'' None ''AVAILABLE'',
          mk_node ''A'' ''folder'' (Some ''a'') ''AVAILABLE'',
          mk_node ''B'' ''folder'' (Some ''b'') ''AVAILABLE'',
          mk_node ''C'' ''folder'' (Some ''c'') ''TRASH'',
          mk_node ''F'' ''file'' (Some ''f'') ''AVAILABLE'',
          mk_node ''T'' ''file'' (Some ''t'') ''TRASH'',
          mk_node ''X1'' ''file'' (Some ''x'') ''TRASH'',
          mk_node ''X2'' ''file'' (Some ''x'') ''TRASH''],
       t_parentage =
         [\<lparr>p_parent = ''r'', p_child = ''A''\<rparr>, \<lparr>p_parent = ''r'', p_child = ''B''\<rparr>,
          \<lparr>p_parent = ''r'', p_child = ''C''\<rparr>,
          \<lparr>p_parent = ''A'', p_child = ''F''\<rparr>, \<lparr>p_parent = ''B'', p_child = ''F''\<rparr>,
          \<lparr>p_parent = ''C'', p_child = ''F''\<rparr>,
          \<lparr>p_parent = ''r'', p_child = ''T''\<rparr>,
          \<lparr>p_parent = ''A'', p_child = ''X1''\<rparr>, \<lparr>p_parent = ''A'', p_child = ''X2''\<rparr>],
       t_files =
         [\<lparr>f_id = ''F'', f_md5 = Some ''0cc175b9'', f_size = Some 1, f_version = Some 1\<rparr>,
          \<lparr>f_id = ''T'', f_md5 = Some ''92eb5ffe'', f_size = Some 2, f_version = Some 1\<rparr>],
       t_properties = [],
       t_content = [] \<rparr>"

text \<open>A store that was never synchronised: no row at all, the root included.\<close>

definition unsynced :: store where
  "unsynced = \<lparr> t_nodes = [], t_parentage = [], t_files = [], t_properties = [], t_content = [] \<rparr>"

text \<open>The state of a fresh process: both caches empty.\<close>

definition fresh :: "store \<Rightarrow> string \<Rightarrow> state" where
  "fresh s rid =
     \<lparr> conn = s, root_id = rid, node_id_to_node_cache = Map.empty,
       path_to_node_id_cache = Map.empty \<rparr>"

section \<open>Notions the properties are stated with\<close>

text \<open>The id of the node a call of \<^verbatim>\<open>resolve\<close> returned, if it returned one.\<close>

definition returned_id :: "(error + Node option) \<times> state \<Rightarrow> string option" where
  "returned_id res = (case fst res of Inr (Some n) \<Rightarrow> Some (id' n) | _ \<Rightarrow> None)"

text \<open>
  \<open>first_parents \<sigma> node_id ps\<close>: \<open>ps\<close> is the chain of first parents of the node, nearest
  first: each is the first row of \<^verbatim>\<open>FIND_FIRST_PARENT_SQL\<close> for the one before, and the
  chain ends with the root. \<open>folder_path ps\<close> is the root's simple name followed by the
  names of the others, outermost first, each with a slash after it.
\<close>

fun first_parents :: "state \<Rightarrow> string \<Rightarrow> Node list \<Rightarrow> bool" where
  "first_parents \<sigma> node_id [] = False"
| "first_parents \<sigma> node_id (p # ps) =
     (node_id \<noteq> root_id \<sigma> \<and>
      map_option Node_init (fst (fetchone (FIND_FIRST_PARENT_SQL (conn \<sigma>) node_id))) = Some p \<and>
      (if id' p = root_id \<sigma> then ps = [] else first_parents \<sigma> (id' p) ps))"

fun folder_path :: "Node list \<Rightarrow> string option" where
  "folder_path [] = None"
| "folder_path [r] = simple_name r"
| "folder_path (p # ps) =
     (case folder_path ps of
        None \<Rightarrow> None
      | Some q \<Rightarrow> (case name p of None \<Rightarrow> None | Some nm \<Rightarrow> Some (q @ nm @ ''/'')))"

text \<open>The first parents of the file \<open>f\<close> of the small drive: folder \<open>a\<close>, then the root.\<close>

definition chain_F :: "Node list" where
  "chain_F =
     [Node_init (Plain (mk_node ''A'' ''folder'' (Some ''a'') ''AVAILABLE'')),
      Node_init (Plain (mk_node ''r'' ''folder'' None ''AVAILABLE''))]"

text \<open>
  A plain name is not empty and has no slash. \<open>path_of\<close> is the path that a list of
  names spells from the root: \<^verbatim>\<open>/\<close> for no name, \<^verbatim>\<open>/a/b\<close> for \<open>a\<close>, \<open>b\<close>.
\<close>

definition plain_name :: "string \<Rightarrow> bool" where
  "plain_name nm = (nm \<noteq> [] \<and> CHR ''/'' \<notin> set nm)"

definition path_of :: "string list \<Rightarrow> string" where
  "path_of names = (if names = [] then ''/'' else concat (map (\<lambda>nm. ''/'' @ nm) names))"




text \<open>
  The root has an available row; the ids are primary keys of \<^verbatim>\<open>nodes\<close> and \<^verbatim>\<open>files\<close>.
\<close>

definition root_row :: "store \<Rightarrow> string \<Rightarrow> bool" where
  "root_row s rid = (\<exists>n \<in> set (t_nodes s). n_id n = rid \<and> n_status n = ''AVAILABLE'')"

definition primary_keys :: "store \<Rightarrow> bool" where
  "primary_keys s = (distinct (map n_id (t_nodes s)) \<and> distinct (map f_id (t_files s)))"




text \<open>
  \<open>only_route s rid i ups\<close>: following the available rows of the parents query upwards
  from node \<open>i\<close> there is one way only, and it ends at the root: \<open>ups\<close> are the names
  of the nodes on it, \<open>i\<close> first, the child of the root last. Rows that are not
  available are passed over. \<open>cache_current\<close>: every node of the id cache is keyed by
  its id and has the name its row in the store has.
\<close>

fun only_route :: "store \<Rightarrow> string \<Rightarrow> string \<Rightarrow> string list \<Rightarrow> bool" where
  "only_route s rid i [] = (i = rid)"
| "only_route s rid i (nm # ups) =
     (i \<noteq> rid \<and> plain_name nm \<and>
      (\<exists>m \<in> set (t_nodes s). n_id m = i \<and> n_name m = Some nm) \<and>
      (case filter (\<lambda>r. n_status (row_n r) = ''AVAILABLE'') (PARENTS_SQL s i) of
         [r] \<Rightarrow> only_route s rid (n_id (row_n r)) ups
       | _ \<Rightarrow> False))"

definition cache_current :: "state \<Rightarrow> bool" where
  "cache_current \<sigma> =
     (\<forall>i n. node_id_to_node_cache \<sigma> i = Some n \<longrightarrow>
        id' n = i \<and> (\<exists>m \<in> set (t_nodes (conn \<sigma>)). n_id m = i \<and> n_name m = name n))"

text \<open>
  The invariant of the id cache: every node in it is available. It depends on the root
  row of the store being available, if there is one; \<open>kept\<close> is both together.
  \<open>reached \<sigma>0 \<sigma>\<close>: the state \<open>\<sigma>\<close> is left by a sequence of calls from \<open>\<sigma>0\<close>, each
  of a method that writes a cache, \<^verbatim>\<open>resolve\<close> and \<^verbatim>\<open>resolve_id\<close> in normal mode only.
  The methods that are not listed leave the state as it is.
\<close>

definition id_cache_available :: "state \<Rightarrow> bool" where
  "id_cache_available \<sigma> = (\<forall>i n. node_id_to_node_cache \<sigma> i = Some n \<longrightarrow> is_available n)"

definition root_available_or_absent :: "state \<Rightarrow> bool" where
  "root_available_or_absent \<sigma> =
     (case fst (fetchone (NODE_BY_ID_SQL (conn \<sigma>) (root_id \<sigma>))) of
        None \<Rightarrow> True
      | Some r \<Rightarrow> n_status (row_n r) = ''AVAILABLE'')"

inductive reached :: "state \<Rightarrow> state \<Rightarrow> bool" for \<sigma>0 :: state where
  start: "reached \<sigma>0 \<sigma>0"
| by_get_node: "reached \<sigma>0 \<sigma> \<Longrightarrow> reached \<sigma>0 (snd (get_node \<sigma> i))"
| by_get_root_node: "reached \<sigma>0 \<sigma> \<Longrightarrow> reached \<sigma>0 (snd (get_root_node \<sigma>))"
| by_resolve: "reached \<sigma>0 \<sigma> \<Longrightarrow> reached \<sigma>0 (snd (resolve \<sigma> path False))"
| by_resolve_id: "reached \<sigma>0 \<sigma> \<Longrightarrow> reached \<sigma>0 (snd (resolve_id \<sigma> path False))"
| by_list_children:
    "reached \<sigma>0 \<sigma> \<Longrightarrow> reached \<sigma>0 (snd (list_children \<sigma> folder_id trash fp))"
| by_list_trashed_children:
    "reached \<sigma>0 \<sigma> \<Longrightarrow> reached \<sigma>0 (snd (list_trashed_children \<sigma> folder_id))"
| by_all_path:
    "reached \<sigma>0 \<sigma> \<Longrightarrow> all_path k \<sigma> node_id path_suffix = Some (res, \<sigma>') \<Longrightarrow> reached \<sigma>0 \<sigma>'"

definition kept :: "state \<Rightarrow> bool" where
  "kept \<sigma> = (id_cache_available \<sigma> \<and> root_available_or_absent \<sigma>)"

section \<open>Properties\<close>

subsection \<open>\<^verbatim>\<open>all_path\<close> at the root\<close>

text \<open>
  C10. \<^verbatim>\<open>all_path(root_id)\<close> without a path suffix does not return \<^verbatim>\<open>['/']\<close>: it raises
  TypeError at \<^verbatim>\<open>"/" + None\<close>, whatever the store and the caches hold, and no depth of
  recursion makes it return a list. With a suffix the same call returns the one path
  \<^verbatim>\<open>"/" + suffix\<close>. So the enumeration returns a result only for a node other than the root.
\<close>

theorem all_path_root_without_suffix:
  "all_path (Suc k) \<sigma> (root_id \<sigma>) None = Some (Inl TypeError, \<sigma>) \<and>
   all_path fuel \<sigma> (root_id \<sigma>) None \<noteq> Some (Inr paths, \<sigma>') \<and>
   all_path (Suc k) \<sigma> (root_id \<sigma>) (Some sfx) = Some (Inr [''/'' @ sfx], \<sigma>)"
proof (intro conjI)
  show "all_path (Suc k) \<sigma> (root_id \<sigma>) None = Some (Inl TypeError, \<sigma>)" by simp
  show "all_path fuel \<sigma> (root_id \<sigma>) None \<noteq> Some (Inr paths, \<sigma>')"
    by (cases fuel) simp_all
  show "all_path (Suc k) \<sigma> (root_id \<sigma>) (Some sfx) = Some (Inr [''/'' @ sfx], \<sigma>)" by simp
qed

theorem all_path_root_without_suffix_witness:
  "all_path (Suc 0) (fresh drive ''r'') ''r'' None = Some (Inl TypeError, fresh drive ''r'') \<and>
   all_path (Suc 0) (fresh drive ''r'') ''r'' (Some ''f'') = Some (Inr [''/f''], fresh drive ''r'')"
  using all_path_root_without_suffix [of 0 "fresh drive ''r''" 0 "[]" "fresh drive ''r''" "''f''"]
  by (simp add: fresh_def)

subsection \<open>Absence and exceptions\<close>

text \<open>
  C7. The methods \<^verbatim>\<open>get_node\<close>, \<^verbatim>\<open>get_child\<close>, \<^verbatim>\<open>get_conflicting_node\<close>, \<^verbatim>\<open>get_property\<close> and
  \<^verbatim>\<open>get_content\<close> have no raising branch: their result is an option. \<^verbatim>\<open>resolve\<close> has one.
  When the root node is in neither the store nor the id cache and the path cache is
  empty, every call of \<^verbatim>\<open>resolve\<close>, for any path and either mode, ends in the root branch,
  where \<^verbatim>\<open>r.id\<close> is read from None: it raises AttributeError instead of returning None,
  and so does \<^verbatim>\<open>resolve_id\<close>.
\<close>

theorem resolve_raises_without_root:
  assumes "path_to_node_id_cache \<sigma> = Map.empty"
    and "node_id_to_node_cache \<sigma> (root_id \<sigma>) = None"
    and "NODE_BY_ID_SQL (conn \<sigma>) (root_id \<sigma>) = []"
  shows "resolve \<sigma> path trash = (Inl AttributeError, \<sigma>) \<and>
         resolve_id \<sigma> path trash = (Inl AttributeError, \<sigma>)"
proof -
  from assms have "resolve \<sigma> path trash = (Inl AttributeError, \<sigma>)"
  proof (induction \<sigma> path trash rule: resolve.induct)
    case (1 \<sigma> path trash)
    show ?case
    proof (cases "snd (os_path_split path) = []")
      case True
      with 1 show ?thesis
        by (simp add: resolve.simps [of \<sigma> path] get_root_node_def get_node_def)
    next
      case False
      with 1 show ?thesis
        by (simp add: resolve.simps [of \<sigma> path])
    qed
  qed
  then show ?thesis by (simp add: resolve_id_def)
qed

theorem resolve_raises_without_root_witness:
  "resolve (fresh unsynced ''r'') ''/'' False = (Inl AttributeError, fresh unsynced ''r'') \<and>
   resolve_id (fresh unsynced ''r'') ''/a/f'' True = (Inl AttributeError, fresh unsynced ''r'')"
  using resolve_raises_without_root [of "fresh unsynced ''r''" "''/''" False]
    resolve_raises_without_root [of "fresh unsynced ''r''" "''/a/f''" True]
  by (simp add: fresh_def unsynced_def NODE_BY_ID_SQL_def left_join_files_def)

subsection \<open>Identity of nodes\<close>

text \<open>
  C5. Two nodes constructed from the same row have the same id and the same hash, and
  are not equal: \<^verbatim>\<open>Node\<close> hashes by id and inherits the equality of \<^verbatim>\<open>object\<close>, under which
  a node equals only itself.
\<close>

theorem Node_eq_is_identity:
  "(case new_Node h r of (a, h1) \<Rightarrow>
      (case new_Node h1 r of (b, h2) \<Rightarrow>
         id' (h2 ! a) = id' (h2 ! b) \<and>
         Node_hash hash_str h2 a = Node_hash hash_str h2 b \<and>
         \<not> Node_eq a b \<and> Node_eq a a))"
  by (simp add: new_Node_def Node_eq_def Node_hash_def nth_append)

theorem Node_eq_is_identity_witness:
  "(case new_Node [] (Plain (mk_node ''F'' ''file'' (Some ''f'') ''AVAILABLE'')) of (a, h1) \<Rightarrow>
      (case new_Node h1 (Plain (mk_node ''F'' ''file'' (Some ''f'') ''AVAILABLE'')) of (b, h2) \<Rightarrow>
         id' (h2 ! a) = ''F'' \<and> id' (h2 ! b) = ''F'' \<and> \<not> Node_eq a b))"
  using Node_eq_is_identity
    [where h = "[]" and r = "Plain (mk_node ''F'' ''file'' (Some ''f'') ''AVAILABLE'')"
       and hash_str = "\<lambda>s. 0"]
  by (simp add: new_Node_def Node_eq_def Node_init_def mk_node_def)

subsection \<open>\<^verbatim>\<open>first_path\<close>\<close>

lemma first_path_chain:
  "first_parents \<sigma> node_id ps \<Longrightarrow> folder_path ps = Some q \<Longrightarrow> length ps \<le> k \<Longrightarrow>
   first_path k \<sigma> node_id = Some (Inr (Some q), \<sigma>)"
proof (induction ps arbitrary: node_id q k)
  case Nil
  then show ?case by simp
next
  case (Cons p ps)
  from Cons.prems(3) obtain k' where k: "k = Suc k'" and len: "length ps \<le> k'"
    by (cases k) auto
  from Cons.prems(1) have nr: "node_id \<noteq> root_id \<sigma>"
    and fp: "map_option Node_init (fst (fetchone (FIND_FIRST_PARENT_SQL (conn \<sigma>) node_id))) = Some p"
    by simp_all
  from fp obtain r where r: "fst (fetchone (FIND_FIRST_PARENT_SQL (conn \<sigma>) node_id)) = Some r"
    and p: "Node_init r = p" by auto
  show ?case
  proof (cases "id' p = root_id \<sigma>")
    case True
    with Cons.prems(1) have "ps = []" by simp
    with Cons.prems(2) have "simple_name p = Some q" by simp
    with True nr r p show ?thesis by (simp add: k)
  next
    case False
    with Cons.prems(1) have chain: "first_parents \<sigma> (id' p) ps" by simp
    then obtain p' ps' where ps: "ps = p' # ps'" by (cases ps) auto
    with Cons.prems(2) obtain q' nm where q': "folder_path ps = Some q'"
      and nm: "name p = Some nm" and q: "q = q' @ nm @ ''/''"
      by (auto split: option.splits)
    from Cons.IH [OF chain q' len] have "first_path k' \<sigma> (id' p) = Some (Inr (Some q'), \<sigma>)" .
    with False nr r p nm q show ?thesis by (simp add: k)
  qed
qed

lemma first_parent_sorts_first:
  assumes "fst (fetchone (FIND_FIRST_PARENT_SQL s child)) = Some r"
  shows "row_n r \<in> set (parents_of s child) \<and>
         (\<forall>q \<in> set (parents_of s child).
            (n_status (row_n r), n_id (row_n r)) \<le> (n_status q, n_id q))"
proof -
  let ?f = "\<lambda>n. (n_status n, n_id n)"
  let ?xs = "sort_key ?f (parents_of s child)"
  from assms obtain x xs where xs: "?xs = x # xs" and r: "r = Plain x"
    by (cases ?xs) (auto simp: FIND_FIRST_PARENT_SQL_def)
  have "sorted (map ?f ?xs)" by (rule sorted_sort_key)
  with xs have le: "\<forall>y \<in> set xs. ?f x \<le> ?f y" by simp
  have s: "set ?xs = set (parents_of s child)" by simp
  with xs have "x \<in> set (parents_of s child)" by (metis list.set_intros(1))
  moreover have "\<forall>q \<in> set (parents_of s child). ?f x \<le> ?f q"
  proof
    fix q assume "q \<in> set (parents_of s child)"
    with s xs have "q = x \<or> q \<in> set xs" by (metis set_ConsD)
    with le show "?f x \<le> ?f q" by auto
  qed
  ultimately show ?thesis using r by simp
qed

text \<open>
  C3, as the code has it. For the root \<^verbatim>\<open>first_path\<close> returns \<^verbatim>\<open>'/'\<close>. For any other node
  it returns the path of the folder that holds the node, ending in a slash and without
  the node's own name: the root's simple name followed by the names of the chain of first
  parents. Each first parent is the parent row that sorts first by status, then by id. The
  call leaves the state as it found it, so a second call returns the same.
\<close>

theorem first_path_is_containing_folder:
  "first_path (Suc k) \<sigma> (root_id \<sigma>) = Some (Inr (Some ''/''), \<sigma>) \<and>
   (first_parents \<sigma> node_id ps \<and> folder_path ps = Some q \<and> length ps \<le> k \<longrightarrow>
      first_path k \<sigma> node_id = Some (Inr (Some q), \<sigma>)) \<and>
   (fst (fetchone (FIND_FIRST_PARENT_SQL (conn \<sigma>) node_id)) = Some r \<longrightarrow>
      row_n r \<in> set (parents_of (conn \<sigma>) node_id) \<and>
      (\<forall>q \<in> set (parents_of (conn \<sigma>) node_id).
         (n_status (row_n r), n_id (row_n r)) \<le> (n_status q, n_id q)))"
proof (intro conjI impI)
  show "first_path (Suc k) \<sigma> (root_id \<sigma>) = Some (Inr (Some ''/''), \<sigma>)" by simp
next
  assume "first_parents \<sigma> node_id ps \<and> folder_path ps = Some q \<and> length ps \<le> k"
  then show "first_path k \<sigma> node_id = Some (Inr (Some q), \<sigma>)"
    using first_path_chain by blast
next
  assume r: "fst (fetchone (FIND_FIRST_PARENT_SQL (conn \<sigma>) node_id)) = Some r"
  from first_parent_sorts_first [OF r]
  show "row_n r \<in> set (parents_of (conn \<sigma>) node_id)" by simp
  from first_parent_sorts_first [OF r]
  show "\<forall>q \<in> set (parents_of (conn \<sigma>) node_id).
          (n_status (row_n r), n_id (row_n r)) \<le> (n_status q, n_id q)" by simp
qed

lemmas drive_defs =
  fresh_def drive_def mk_node_def Node_init_def Let_def
  children_of_def parents_of_def left_join_files_def

theorem first_path_is_containing_folder_witness:
  "first_parents (fresh drive ''r'') ''F'' chain_F \<and> folder_path chain_F = Some ''/a/'' \<and>
   first_path 2 (fresh drive ''r'') ''F'' = Some (Inr (Some ''/a/''), fresh drive ''r'') \<and>
   fst (fetchone (FIND_FIRST_PARENT_SQL (conn (fresh drive ''r'')) ''F'')) =
     Some (Plain (mk_node ''A'' ''folder'' (Some ''a'') ''AVAILABLE''))"
proof -
  have chain: "first_parents (fresh drive ''r'') ''F'' chain_F \<and> folder_path chain_F = Some ''/a/''"
    by (simp add: chain_F_def drive_defs FIND_FIRST_PARENT_SQL_def simple_name_def is_file_def)
  have first: "fst (fetchone (FIND_FIRST_PARENT_SQL (conn (fresh drive ''r'')) ''F'')) =
     Some (Plain (mk_node ''A'' ''folder'' (Some ''a'') ''AVAILABLE''))"
    by (simp add: drive_defs FIND_FIRST_PARENT_SQL_def)
  have len: "length chain_F \<le> 2" by (simp add: chain_F_def)
  from first_path_is_containing_folder
         [where k = 2 and \<sigma> = "fresh drive ''r''" and node_id = "''F''" and ps = chain_F
            and q = "''/a/''" and r = "Plain (mk_node ''A'' ''folder'' (Some ''a'') ''AVAILABLE'')"]
       chain len first
  show ?thesis by simp
qed

text \<open>
  The claim as stated fails on the small drive: the file \<open>f\<close> is at \<^verbatim>\<open>/a/f\<close>, where
  \<^verbatim>\<open>resolve\<close> finds it, and \<^verbatim>\<open>first_path\<close> returns \<^verbatim>\<open>/a/\<close>.
\<close>

theorem first_path_full_path_counterexample:
  "returned_id (resolve (fresh drive ''r'') ''/a/f'' False) = Some ''F'' \<and>
   first_path 2 (fresh drive ''r'') ''F'' = Some (Inr (Some ''/a/''), fresh drive ''r'') \<and>
   first_path 2 (fresh drive ''r'') ''F'' \<noteq> Some (Inr (Some ''/a/f''), fresh drive ''r'')"
proof -
  have "returned_id (resolve (fresh drive ''r'') ''/a/f'' False) = Some ''F''"
    by (simp add: returned_id_def resolve.simps os_path_split_def rstrip_sep_def
        get_root_node_def get_node_def NODE_BY_ID_SQL_def CHILD_OF_SQL_def is_available_def
        drive_defs)
  moreover have "first_path 2 (fresh drive ''r'') ''F'' =
      Some (Inr (Some ''/a/''), fresh drive ''r'')"
    by (simp add: numeral_2_eq_2 drive_defs FIND_FIRST_PARENT_SQL_def simple_name_def is_file_def)
  ultimately show ?thesis by simp
qed

subsection \<open>What \<^verbatim>\<open>all_path\<close> keeps\<close>

text \<open>
  \<^verbatim>\<open>all_path\<close> changes the state through \<^verbatim>\<open>get_node\<close> only: what every call of
  \<^verbatim>\<open>get_node\<close> keeps, \<^verbatim>\<open>all_path\<close> keeps.
\<close>

lemma for_parents_invariant:
  assumes "\<And>\<sigma> i res \<sigma>'. P \<sigma> \<Longrightarrow> rec \<sigma> i = Some (res, \<sigma>') \<Longrightarrow> P \<sigma>'"
  shows "P \<sigma> \<Longrightarrow> for_parents rec \<sigma> rows ret = Some (res, \<sigma>') \<Longrightarrow> P \<sigma>'"
proof (induction rows arbitrary: \<sigma> ret)
  case Nil
  then show ?case by simp
next
  case (Cons parent rest)
  show ?case
  proof (cases "is_available (Node_init parent)")
    case False
    with Cons show ?thesis by simp
  next
    case True
    show ?thesis
    proof (cases "rec \<sigma> (id' (Node_init parent))")
      case None
      with True Cons.prems show ?thesis by simp
    next
      case (Some a)
      obtain r \<sigma>1 where a: "a = (r, \<sigma>1)" by (cases a)
      with Some assms Cons.prems(1) have p1: "P \<sigma>1" by blast
      show ?thesis
      proof (cases r)
        case (Inl e)
        with True Some a Cons.prems p1 show ?thesis by simp
      next
        case (Inr ps)
        with True Some a Cons.prems have "for_parents rec \<sigma>1 rest (ret @ ps) = Some (res, \<sigma>')"
          by simp
        from Cons.IH [OF p1 this] show ?thesis .
      qed
    qed
  qed
qed

lemma all_path_invariant:
  assumes step: "\<And>\<sigma> i. P \<sigma> \<Longrightarrow> P (snd (get_node \<sigma> i))"
  shows "P \<sigma> \<Longrightarrow> all_path k \<sigma> node_id sfx = Some (res, \<sigma>') \<Longrightarrow> P \<sigma>'"
proof (induction k arbitrary: \<sigma> node_id sfx res \<sigma>')
  case 0
  then show ?case by simp
next
  case (Suc k)
  note p0 = Suc.prems(1) and prem = Suc.prems(2)
  show ?case
  proof (cases "node_id = root_id \<sigma>")
    case True
    with prem p0 show ?thesis by (cases sfx) auto
  next
    case False
    obtain r \<sigma>1 where g: "get_node \<sigma> node_id = (r, \<sigma>1)" by (cases "get_node \<sigma> node_id")
    with step [OF p0, of node_id] have p1: "P \<sigma>1" by simp
    show ?thesis
    proof (cases r)
      case None
      with False g prem p1 show ?thesis by simp
    next
      case (Some n)
      have rec: "\<And>s \<sigma> i res \<sigma>'. P \<sigma> \<Longrightarrow> all_path k \<sigma> i s = Some (res, \<sigma>') \<Longrightarrow> P \<sigma>'"
        using Suc.IH by blast
      show ?thesis
      proof (cases "sfx \<noteq> None \<and> sfx \<noteq> Some []")
        case True
        show ?thesis
        proof (cases "name n")
          case None
          with True Some False g prem p1 show ?thesis by simp
        next
          case nm: (Some nm)
          let ?s = "Some (os_path_join nm (the sfx))"
          from True Some False g prem nm
          have "for_parents (\<lambda>\<sigma>' i. all_path k \<sigma>' i ?s) \<sigma>1 (PARENTS_SQL (conn \<sigma>1) (id' n)) []
                  = Some (res, \<sigma>')" by simp
          from for_parents_invariant [where rec = "\<lambda>\<sigma>' i. all_path k \<sigma>' i ?s" and P = P,
              OF rec p1 this]
          show ?thesis .
        qed
      next
        case nosfx: False
        from nosfx Some False g prem
        have "for_parents (\<lambda>\<sigma>' i. all_path k \<sigma>' i (name n)) \<sigma>1 (PARENTS_SQL (conn \<sigma>1) (id' n)) []
                = Some (res, \<sigma>')" by auto
        from for_parents_invariant [where rec = "\<lambda>\<sigma>' i. all_path k \<sigma>' i (name n)" and P = P,
            OF rec p1 this]
        show ?thesis .
      qed
    qed
  qed
qed

subsection \<open>The store is only read\<close>

lemma get_node_conn: "conn (snd (get_node \<sigma> i)) = conn \<sigma>"
  by (simp add: get_node_def Let_def split: option.splits)

lemma resolve_conn: "conn (snd (resolve \<sigma> path trash)) = conn \<sigma>"
proof (induction \<sigma> path trash rule: resolve.induct)
  case (1 \<sigma> path trash)
  show ?case
  proof (cases "path_to_node_id_cache \<sigma> path")
    case (Some i)
    obtain r \<sigma>1 where g: "get_node \<sigma> i = (r, \<sigma>1)" by (cases "get_node \<sigma> i")
    with get_node_conn [of \<sigma> i] have "conn \<sigma>1 = conn \<sigma>" by simp
    with Some g show ?thesis
      by (simp add: resolve.simps [of \<sigma> path])
  next
    case None
    show ?thesis
    proof (cases "snd (os_path_split path) = []")
      case True
      obtain r \<sigma>1 where g: "get_node \<sigma> (root_id \<sigma>) = (r, \<sigma>1)"
        by (cases "get_node \<sigma> (root_id \<sigma>)")
      with get_node_conn [of \<sigma> "root_id \<sigma>"] have "conn \<sigma>1 = conn \<sigma>" by simp
      with None True g show ?thesis
        by (cases r) (simp_all add: resolve.simps [of \<sigma> path] get_root_node_def)
    next
      case False
      obtain res \<sigma>1 where rec: "resolve \<sigma> (fst (os_path_split path)) trash = (res, \<sigma>1)"
        by (cases "resolve \<sigma> (fst (os_path_split path)) trash")
      with None False 1 have c1: "conn \<sigma>1 = conn \<sigma>" by simp
      show ?thesis
      proof (cases res)
        case (Inl e)
        with None False rec c1 show ?thesis by (simp add: resolve.simps [of \<sigma> path])
      next
        case (Inr found)
        show ?thesis
        proof (cases found)
          case None': None
          with None False rec c1 Inr show ?thesis by (simp add: resolve.simps [of \<sigma> path])
        next
          case (Some parent)
          with None False rec c1 Inr show ?thesis
            by (cases "CHILD_OF_SQL (conn \<sigma>) (snd (os_path_split path)) (id' parent)")
               (simp_all add: resolve.simps [of \<sigma> path] Let_def)
        qed
      qed
    qed
  qed
qed

lemma prime_caches_conn: "conn (snd (prime_caches \<sigma> fp cs)) = conn \<sigma>"
proof (induction cs arbitrary: \<sigma>)
  case Nil
  show ?case by simp
next
  case (Cons c cs)
  show ?case
    using Cons.IH by (cases fp) (auto simp: Let_def split: option.splits)
qed

lemma list_children_conn: "conn (snd (list_children \<sigma> fid trash fp)) = conn \<sigma>"
proof -
  let ?ns = "filter (\<lambda>n. is_available n \<or> trash) (map Node_init (CHILDREN_SQL (conn \<sigma>) fid))"
  let ?cs = "filter (\<lambda>n. \<not> is_file n \<and> is_folder n) ?ns @ filter is_file ?ns"
  obtain r \<sigma>1 where p: "prime_caches \<sigma> fp ?cs = (r, \<sigma>1)"
    by (cases "prime_caches \<sigma> fp ?cs")
  with prime_caches_conn [of \<sigma> fp ?cs] have "conn \<sigma>1 = conn \<sigma>" by simp
  with p show ?thesis by (cases r) (simp_all add: list_children_def Let_def)
qed

lemma list_trashed_children_conn: "conn (snd (list_trashed_children \<sigma> fid)) = conn \<sigma>"
proof -
  obtain r \<sigma>1 where p: "list_children \<sigma> fid True None = (r, \<sigma>1)"
    by (cases "list_children \<sigma> fid True None")
  with list_children_conn [of \<sigma> fid True None] have "conn \<sigma>1 = conn \<sigma>" by simp
  with p show ?thesis
    by (cases r) (simp_all add: list_trashed_children_def split: prod.splits)
qed

lemma first_path_frame: "first_path k \<sigma> node_id = Some (res, \<sigma>') \<Longrightarrow> \<sigma>' = \<sigma>"
proof (induction k arbitrary: node_id res)
  case 0
  then show ?case by simp
next
  case (Suc k)
  then show ?case
    by (auto simp: Let_def split: if_splits option.splits sum.splits prod.splits)
qed

lemma all_path_conn:
  assumes "all_path k \<sigma> node_id sfx = Some (res, \<sigma>')"
  shows "conn \<sigma>' = conn \<sigma>"
proof -
  have step: "\<And>\<tau> i. conn \<tau> = conn \<sigma> \<Longrightarrow> conn (snd (get_node \<tau> i)) = conn \<sigma>"
    by (simp add: get_node_conn)
  from all_path_invariant [where P = "\<lambda>\<tau>. conn \<tau> = conn \<sigma>", OF step refl assms]
  show ?thesis .
qed

text \<open>
  C9. Every method of the query mixin leaves the store as it found it: the state a method
  returns has the connection's tables unchanged, whatever the arguments and the caches
  are, and whether the method returns or raises. The statements executed are SELECTs;
  the one UPDATE of the module is not called. For \<^verbatim>\<open>first_path\<close> and \<^verbatim>\<open>all_path\<close> this
  holds for every depth at which the call ends.
\<close>

theorem query_surface_is_read_only:
  "conn (snd (get_node \<sigma> i)) = conn \<sigma> \<and>
   conn (snd (get_root_node \<sigma>)) = conn \<sigma> \<and>
   conn (snd (get_conflicting_node \<sigma> nm i)) = conn \<sigma> \<and>
   conn (snd (resolve_id \<sigma> path trash)) = conn \<sigma> \<and>
   conn (snd (resolve \<sigma> path trash)) = conn \<sigma> \<and>
   conn (snd (childrens_names \<sigma> i)) = conn \<sigma> \<and>
   conn (snd (get_node_count \<sigma>)) = conn \<sigma> \<and>
   conn (snd (get_folder_count \<sigma>)) = conn \<sigma> \<and>
   conn (snd (get_file_count \<sigma>)) = conn \<sigma> \<and>
   conn (snd (calculate_usage \<sigma>)) = conn \<sigma> \<and>
   conn (snd (num_children \<sigma> i)) = conn \<sigma> \<and>
   conn (snd (num_parents \<sigma> i)) = conn \<sigma> \<and>
   conn (snd (get_child \<sigma> i nm)) = conn \<sigma> \<and>
   conn (snd (list_children \<sigma> i trash fp)) = conn \<sigma> \<and>
   conn (snd (list_trashed_children \<sigma> i)) = conn \<sigma> \<and>
   (\<forall>res \<sigma>'. first_path k \<sigma> i = Some (res, \<sigma>') \<longrightarrow> conn \<sigma>' = conn \<sigma>) \<and>
   (\<forall>res \<sigma>'. all_path k \<sigma> i sfx = Some (res, \<sigma>') \<longrightarrow> conn \<sigma>' = conn \<sigma>) \<and>
   conn (snd (find_by_name \<sigma> nm)) = conn \<sigma> \<and>
   conn (snd (find_by_md5 \<sigma> nm)) = conn \<sigma> \<and>
   conn (snd (find_by_regex regexp \<sigma> nm)) = conn \<sigma> \<and>
   conn (snd (file_size_exists \<sigma> sz)) = conn \<sigma> \<and>
   conn (snd (get_property \<sigma> i owner nm)) = conn \<sigma> \<and>
   conn (snd (get_content \<sigma> i v)) = conn \<sigma>"
proof -
  have rid: "conn (snd (resolve_id \<sigma> path trash)) = conn \<sigma>"
  proof -
    obtain r \<sigma>1 where p: "resolve \<sigma> path trash = (r, \<sigma>1)"
      by (cases "resolve \<sigma> path trash")
    with resolve_conn [of \<sigma> path trash] have c1: "conn \<sigma>1 = conn \<sigma>" by simp
    show ?thesis
    proof (cases r)
      case (Inl e)
      with p c1 show ?thesis by (simp add: resolve_id_def)
    next
      case (Inr found)
      with p c1 show ?thesis by (cases found) (simp_all add: resolve_id_def)
    qed
  qed
  have fp: "\<forall>res \<sigma>'. first_path k \<sigma> i = Some (res, \<sigma>') \<longrightarrow> conn \<sigma>' = conn \<sigma>"
    using first_path_frame by blast
  have ap: "\<forall>res \<sigma>'. all_path k \<sigma> i sfx = Some (res, \<sigma>') \<longrightarrow> conn \<sigma>' = conn \<sigma>"
    using all_path_conn by blast
  have gc: "conn (snd (get_child \<sigma> i nm)) = conn \<sigma>"
    by (simp add: get_child_def split: option.splits)
  have gcn: "conn (snd (get_conflicting_node \<sigma> nm i)) = conn \<sigma>"
    by (simp add: get_conflicting_node_def split: option.splits)
  have gp: "conn (snd (get_property \<sigma> i owner nm)) = conn \<sigma>"
    by (simp add: get_property_def split: option.splits)
  have gct: "conn (snd (get_content \<sigma> i v)) = conn \<sigma>"
    by (simp add: get_content_def split: option.splits)
  have counts: "conn (snd (childrens_names \<sigma> i)) = conn \<sigma>"
    "conn (snd (get_node_count \<sigma>)) = conn \<sigma>" "conn (snd (get_folder_count \<sigma>)) = conn \<sigma>"
    "conn (snd (get_file_count \<sigma>)) = conn \<sigma>" "conn (snd (calculate_usage \<sigma>)) = conn \<sigma>"
    "conn (snd (num_children \<sigma> i)) = conn \<sigma>" "conn (snd (num_parents \<sigma> i)) = conn \<sigma>"
    by (simp_all add: childrens_names_def get_node_count_def get_folder_count_def
        get_file_count_def calculate_usage_def num_children_def num_parents_def)
  have finds: "conn (snd (find_by_name \<sigma> nm)) = conn \<sigma>"
    "conn (snd (find_by_md5 \<sigma> nm)) = conn \<sigma>"
    "conn (snd (find_by_regex regexp \<sigma> nm)) = conn \<sigma>"
    "conn (snd (file_size_exists \<sigma> sz)) = conn \<sigma>"
    by (simp_all add: find_by_name_def find_by_md5_def find_by_regex_def file_size_exists_def)
  show ?thesis
    by (intro conjI get_node_conn resolve_conn list_children_conn list_trashed_children_conn
        rid fp ap gc gcn gp gct counts finds) (simp add: get_root_node_def get_node_conn)
qed

theorem query_surface_is_read_only_witness:
  "conn (snd (resolve (fresh drive ''r'') ''/a/f'' False)) = drive \<and>
   conn (snd (list_children (fresh drive ''r'') ''A'' True (Some ''/a''))) = drive \<and>
   map_option (\<lambda>x. (fst x, conn (snd x))) (all_path 3 (fresh drive ''r'') ''F'' None) =
     Some (Inr [''/a/f'', ''/b/f''], drive)"
proof -
  note ro = query_surface_is_read_only
    [where \<sigma> = "fresh drive ''r''" and path = "''/a/f''" and trash = False and k = 3
       and i = "''F''" and sfx = None]
  note ro2 = query_surface_is_read_only
    [where \<sigma> = "fresh drive ''r''" and i = "''A''" and trash = True and fp = "Some ''/a''"]
  have c: "conn (fresh drive ''r'') = drive" by (simp add: fresh_def)
  have ev: "map_option fst (all_path 3 (fresh drive ''r'') ''F'' None) =
      Some (Inr [''/a/f'', ''/b/f''])"
    by (simp add: numeral_3_eq_3 get_node_def NODE_BY_ID_SQL_def PARENTS_SQL_def
        is_available_def os_path_join_def drive_defs)
  then obtain \<sigma>' where
    "all_path 3 (fresh drive ''r'') ''F'' None = Some (Inr [''/a/f'', ''/b/f''], \<sigma>')"
    by (cases "all_path 3 (fresh drive ''r'') ''F'' None") auto
  with ro c have "map_option (\<lambda>x. (fst x, conn (snd x))) (all_path 3 (fresh drive ''r'') ''F'' None) =
     Some (Inr [''/a/f'', ''/b/f''], drive)" by simp
  with ro ro2 c show ?thesis by simp
qed

subsection \<open>Ambiguous names in the trash\<close>

lemma os_path_split_shorter:
  assumes "snd (os_path_split p) \<noteq> []"
  shows "length (fst (os_path_split p)) < length p"
proof -
  let ?h = "rev (dropWhile (\<lambda>c. c \<noteq> CHR ''/'') (rev p))"
  let ?t = "rev (takeWhile (\<lambda>c. c \<noteq> CHR ''/'') (rev p))"
  from assms have "?t \<noteq> []" by (simp add: os_path_split_def Let_def)
  then have "0 < length ?t" by simp
  moreover have "length ?h + length ?t = length p"
    by (metis add.commute length_append length_rev takeWhile_dropWhile_id)
  ultimately have lt: "length ?h < length p" by linarith
  have "length (rstrip_sep ?h) \<le> length ?h"
    unfolding rstrip_sep_def by (simp add: length_dropWhile_le)
  with lt show ?thesis by (auto simp: os_path_split_def Let_def)
qed

lemma get_node_path_cache:
  "path_to_node_id_cache (snd (get_node \<sigma> i)) = path_to_node_id_cache \<sigma>"
  by (simp add: get_node_def Let_def split: option.splits)

lemma resolve_path_cache_longer:
  "length path < length q \<Longrightarrow>
   path_to_node_id_cache (snd (resolve \<sigma> path trash)) q = path_to_node_id_cache \<sigma> q"
proof (induction \<sigma> path trash rule: resolve.induct)
  case (1 \<sigma> path trash)
  from "1.prems" have ne: "path \<noteq> q" by auto
  show ?case
  proof (cases "path_to_node_id_cache \<sigma> path")
    case (Some i)
    obtain r \<sigma>1 where g: "get_node \<sigma> i = (r, \<sigma>1)" by (cases "get_node \<sigma> i")
    with get_node_path_cache [of \<sigma> i]
    have "path_to_node_id_cache \<sigma>1 = path_to_node_id_cache \<sigma>" by simp
    with Some g show ?thesis by (simp add: resolve.simps [of \<sigma> path])
  next
    case None
    show ?thesis
    proof (cases "snd (os_path_split path) = []")
      case True
      obtain r \<sigma>1 where g: "get_node \<sigma> (root_id \<sigma>) = (r, \<sigma>1)"
        by (cases "get_node \<sigma> (root_id \<sigma>)")
      with get_node_path_cache [of \<sigma> "root_id \<sigma>"]
      have "path_to_node_id_cache \<sigma>1 = path_to_node_id_cache \<sigma>" by simp
      with None True g ne show ?thesis
        by (cases r) (simp_all add: resolve.simps [of \<sigma> path] get_root_node_def)
    next
      case False
      obtain res \<sigma>1 where rec: "resolve \<sigma> (fst (os_path_split path)) trash = (res, \<sigma>1)"
        by (cases "resolve \<sigma> (fst (os_path_split path)) trash")
      from False os_path_split_shorter [of path] "1.prems"
      have "length (fst (os_path_split path)) < length q" by simp
      with None False "1.IH" rec
      have c1: "path_to_node_id_cache \<sigma>1 q = path_to_node_id_cache \<sigma> q" by simp
      show ?thesis
      proof (cases res)
        case (Inl e)
        with None False rec c1 show ?thesis by (simp add: resolve.simps [of \<sigma> path])
      next
        case (Inr found)
        show ?thesis
        proof (cases found)
          case None': None
          with None False rec c1 Inr show ?thesis by (simp add: resolve.simps [of \<sigma> path])
        next
          case (Some parent)
          with None False rec c1 Inr ne show ?thesis
            by (cases "CHILD_OF_SQL (conn \<sigma>1) (snd (os_path_split path)) (id' parent)")
               (simp_all add: resolve.simps [of \<sigma> path] Let_def)
        qed
      qed
    qed
  qed
qed

text \<open>
  C4, as the code has it. Let a path, absent from the path cache, split into a parent
  path and a name, let the parent path resolve (in trash mode) to a folder, and let that
  folder have at least two children of that name, none of them available. Then
  \<^verbatim>\<open>resolve\<close> in trash mode returns None for the path. The caches are left as the
  resolution of the parent path left them, which may have added the parent path and its
  ancestors; no entry for the path itself is added. A path that is in the path cache is
  not looked up in the store: \<^verbatim>\<open>resolve\<close> returns the node cached for it.
\<close>

theorem ambiguous_trash_name_is_absent:
  assumes "path_to_node_id_cache \<sigma> path = None"
    and "snd (os_path_split path) \<noteq> []"
    and "resolve \<sigma> (fst (os_path_split path)) True = (Inr (Some parent), \<sigma>1)"
    and "2 \<le> length (CHILD_OF_SQL (conn \<sigma>) (snd (os_path_split path)) (id' parent))"
    and "\<forall>r \<in> set (CHILD_OF_SQL (conn \<sigma>) (snd (os_path_split path)) (id' parent)).
           \<not> is_available (Node_init r)"
  shows "resolve \<sigma> path True = (Inr None, \<sigma>1) \<and> path_to_node_id_cache \<sigma>1 path = None"
proof -
  let ?rows = "CHILD_OF_SQL (conn \<sigma>) (snd (os_path_split path)) (id' parent)"
  from assms(3) resolve_conn [of \<sigma> "fst (os_path_split path)" True]
  have c1: "conn \<sigma>1 = conn \<sigma>" by simp
  from assms(4) obtain row1 row2 rest where rows: "?rows = row1 # row2 # rest"
    by (cases ?rows; cases "tl ?rows") auto
  with assms(5) have na: "\<not> is_available (Node_init row1)" by simp
  from assms(1,2,3) c1 rows na have "resolve \<sigma> path True = (Inr None, \<sigma>1)"
    by (simp add: resolve.simps [of \<sigma> path] Let_def)
  moreover from assms(2) os_path_split_shorter [of path]
  have "length (fst (os_path_split path)) < length path" by simp
  from resolve_path_cache_longer [OF this, of \<sigma> True] assms(1,3)
  have "path_to_node_id_cache \<sigma>1 path = None" by simp
  ultimately show ?thesis by simp
qed

lemmas resolve_defs =
  resolve.simps os_path_split_def rstrip_sep_def get_root_node_def get_node_def
  NODE_BY_ID_SQL_def CHILD_OF_SQL_def is_available_def

theorem ambiguous_trash_name_is_absent_witness:
  "fst (resolve (fresh drive ''r'') ''/a'' True) =
     Inr (Some (Node_init (Joined (mk_node ''A'' ''folder'' (Some ''a'') ''AVAILABLE'') None))) \<and>
   resolve (fresh drive ''r'') ''/a/x'' True = (Inr None, snd (resolve (fresh drive ''r'') ''/a'' True)) \<and>
   path_to_node_id_cache (snd (resolve (fresh drive ''r'') ''/a'' True)) ''/a/x'' = None"
proof -
  let ?\<sigma> = "fresh drive ''r''"
  let ?A = "Node_init (Joined (mk_node ''A'' ''folder'' (Some ''a'') ''AVAILABLE'') None)"
  have sp: "os_path_split ''/a/x'' = (''/a'', ''x'')"
    by (simp add: os_path_split_def rstrip_sep_def)
  have idA: "id' ?A = ''A''" by (simp add: Node_init_def mk_node_def)
  have par: "fst (resolve ?\<sigma> ''/a'' True) = Inr (Some ?A)"
    by (simp add: resolve_defs drive_defs)
  have h3: "resolve ?\<sigma> (fst (os_path_split ''/a/x'')) True =
      (Inr (Some ?A), snd (resolve ?\<sigma> ''/a'' True))"
    unfolding sp fst_conv using par by (cases "resolve ?\<sigma> ''/a'' True") simp
  have rows: "length (CHILD_OF_SQL (conn ?\<sigma>) ''x'' ''A'') = 2 \<and>
      (\<forall>r \<in> set (CHILD_OF_SQL (conn ?\<sigma>) ''x'' ''A''). \<not> is_available (Node_init r))"
    by (simp add: CHILD_OF_SQL_def is_available_def drive_defs)
  have h4: "2 \<le> length (CHILD_OF_SQL (conn ?\<sigma>) (snd (os_path_split ''/a/x'')) (id' ?A))"
    unfolding sp snd_conv idA using rows by simp
  have h5: "\<forall>r \<in> set (CHILD_OF_SQL (conn ?\<sigma>) (snd (os_path_split ''/a/x'')) (id' ?A)).
      \<not> is_available (Node_init r)"
    unfolding sp snd_conv idA using rows by blast
  have h1: "path_to_node_id_cache ?\<sigma> ''/a/x'' = None" by (simp add: fresh_def)
  have h2: "snd (os_path_split ''/a/x'') \<noteq> []" by (simp add: sp)
  from ambiguous_trash_name_is_absent [OF h1 h2 h3 h4 h5] par
  show ?thesis by blast
qed

text \<open>
  The claim as stated fails on the small drive, in both halves: folder \<open>a\<close> holds two
  trashed files named \<open>x\<close>. From the empty caches \<^verbatim>\<open>resolve('/a/x', True)\<close> returns None,
  and it has cached the parent: the path cache, empty before the call, maps \<^verbatim>\<open>/a\<close> to the
  folder after it. And after \<^verbatim>\<open>list_children('A', True, '/a')\<close>, which puts the path of
  every listed child in the path cache, \<^verbatim>\<open>/a/x\<close> is cached under the sibling listed
  last, and \<^verbatim>\<open>resolve('/a/x', True)\<close> returns that trashed node from the cache.
\<close>

theorem ambiguous_resolve_counterexample:
  "map (\<lambda>r. status (Node_init r)) (CHILD_OF_SQL drive ''x'' ''A'') = [''TRASH'', ''TRASH''] \<and>
   fst (resolve (fresh drive ''r'') ''/a/x'' True) = Inr None \<and>
   path_to_node_id_cache (fresh drive ''r'') ''/a'' = None \<and>
   path_to_node_id_cache (snd (resolve (fresh drive ''r'') ''/a/x'' True)) ''/a'' = Some ''A'' \<and>
   path_to_node_id_cache
     (snd (list_children (fresh drive ''r'') ''A'' True (Some ''/a''))) ''/a/x'' = Some ''X2'' \<and>
   returned_id
     (resolve (snd (list_children (fresh drive ''r'') ''A'' True (Some ''/a''))) ''/a/x'' True) =
     Some ''X2''"
proof -
  let ?\<sigma>1 = "snd (list_children (fresh drive ''r'') ''A'' True (Some ''/a''))"
  have a: "map (\<lambda>r. status (Node_init r)) (CHILD_OF_SQL drive ''x'' ''A'') = [''TRASH'', ''TRASH'']"
    by (simp add: CHILD_OF_SQL_def drive_defs)
  have b: "fst (resolve (fresh drive ''r'') ''/a/x'' True) = Inr None"
    by (simp add: resolve_defs drive_defs)
  have c: "path_to_node_id_cache (fresh drive ''r'') ''/a'' = None" by (simp add: fresh_def)
  have d: "path_to_node_id_cache (snd (resolve (fresh drive ''r'') ''/a/x'' True)) ''/a'' = Some ''A''"
    by (simp add: resolve_defs drive_defs)
  have primed: "path_to_node_id_cache ?\<sigma>1 ''/a/x'' = Some ''X2'' \<and>
      node_id_to_node_cache ?\<sigma>1 ''X2'' = None"
    by (simp add: list_children_def CHILDREN_SQL_def is_file_def is_folder_def is_available_def
        drive_defs)
  have st: "conn ?\<sigma>1 = drive"
    using list_children_conn [of "fresh drive ''r''" "''A''" True "Some ''/a''"]
    by (simp add: fresh_def)
  have "map (\<lambda>r. n_id (row_n r)) (NODE_BY_ID_SQL drive ''X2'') = [''X2'']"
    by (simp add: NODE_BY_ID_SQL_def drive_defs)
  then obtain r where r: "NODE_BY_ID_SQL drive ''X2'' = [r]" "n_id (row_n r) = ''X2''" by auto
  from primed st r have e: "returned_id (resolve ?\<sigma>1 ''/a/x'' True) = Some ''X2''"
    by (subst resolve.simps) (simp add: get_node_def returned_id_def Node_init_def Let_def)
  from a b c d primed e show ?thesis by blast
qed

subsection \<open>Paths and their splitting\<close>







subsection \<open>Rows of the queries\<close>

lemma row_n_left_join_files: "row_n ` set (left_join_files s ns) = set ns"
proof -
  have one: "\<And>n. row_n ` set (case filter (\<lambda>f. n_id n = f_id f) (t_files s) of
                         [] \<Rightarrow> [Joined n None]
                       | fs \<Rightarrow> map (\<lambda>f. Joined n (Some f)) fs) = {n}"
    by (auto split: list.splits simp: image_iff)
  show ?thesis
    unfolding left_join_files_def set_concat set_map image_Union image_image one by simp
qed

lemma Node_init_id [simp]: "id' (Node_init r) = n_id (row_n r)"
  by (simp add: Node_init_def Let_def)

lemma Node_init_status [simp]: "status (Node_init r) = n_status (row_n r)"
  by (simp add: Node_init_def Let_def)

lemma Node_init_name [simp]: "name (Node_init r) = n_name (row_n r)"
  by (simp add: Node_init_def Let_def)



lemma filter_key_distinct:
  assumes "distinct (map f xs)" "x \<in> set xs"
  shows "filter (\<lambda>y. f y = f x) xs = [x]"
  using assms
proof (induction xs)
  case Nil
  then show ?case by simp
next
  case (Cons a xs)
  show ?case
  proof (cases "a = x")
    case True
    with Cons.prems(1) have "f x \<notin> f ` set xs" by simp
    then have "\<forall>y \<in> set xs. f y \<noteq> f x"
      by (metis imageI)
    then have "filter (\<lambda>y. f y = f x) xs = []" by (simp add: filter_empty_conv)
    with True show ?thesis by simp
  next
    case False
    with Cons.prems have "x \<in> set xs" "f a \<noteq> f x" by auto
    with Cons show ?thesis by simp
  qed
qed

lemma node_by_id_row:
  assumes "distinct (map n_id (t_nodes s))" "n \<in> set (t_nodes s)"
  obtains r where "fst (fetchone (NODE_BY_ID_SQL s (n_id n))) = Some r" "row_n r = n"
proof -
  from filter_key_distinct [OF assms] have f: "filter (\<lambda>y. n_id y = n_id n) (t_nodes s) = [n]" .
  have "row_n ` set (left_join_files s [n]) = {n}" by (simp only: row_n_left_join_files) simp
  then obtain r rest where "left_join_files s [n] = r # rest" "row_n r = n"
    by (cases "left_join_files s [n]") auto
  with f that show ?thesis by (simp add: NODE_BY_ID_SQL_def)
qed


subsection \<open>Resolving along available nodes\<close>

lemma node_by_id_rows_id: "r \<in> set (NODE_BY_ID_SQL s i) \<Longrightarrow> n_id (row_n r) = i"
proof -
  assume "r \<in> set (NODE_BY_ID_SQL s i)"
  then have "row_n r \<in> row_n ` set (left_join_files s (filter (\<lambda>n. n_id n = i) (t_nodes s)))"
    unfolding NODE_BY_ID_SQL_def by (rule imageI)
  then show ?thesis by (simp only: row_n_left_join_files) simp
qed












lemma drive_keys: "primary_keys (conn (fresh drive ''r'')) \<and> root_row (conn (fresh drive ''r'')) (root_id (fresh drive ''r''))"
  by (simp add: primary_keys_def root_row_def fresh_def drive_def mk_node_def)



subsection \<open>Round trip\<close>



subsection \<open>Visibility of the trash\<close>





subsection \<open>All paths of a node with two parents\<close>

lemma get_node_named:
  assumes "cache_current \<sigma>" "distinct (map n_id (t_nodes (conn \<sigma>)))"
    and "m \<in> set (t_nodes (conn \<sigma>))" "n_id m = i" "n_name m = Some nm"
  obtains n \<sigma>1 where "get_node \<sigma> i = (Some n, \<sigma>1)" "id' n = i" "name n = Some nm"
    "cache_current \<sigma>1" "conn \<sigma>1 = conn \<sigma>" "root_id \<sigma>1 = root_id \<sigma>"
proof (cases "node_id_to_node_cache \<sigma> i")
  case (Some n)
  with assms(1) obtain m' where m': "id' n = i" "m' \<in> set (t_nodes (conn \<sigma>))" "n_id m' = i"
    "n_name m' = name n" unfolding cache_current_def by blast
  from m'(2,3) assms(4)
  have "m' \<in> set (filter (\<lambda>y. n_id y = n_id m) (t_nodes (conn \<sigma>)))" by simp
  with filter_key_distinct [OF assms(2,3)] have "m' = m" by simp
  with m' assms(5) have "name n = Some nm" by simp
  with Some m'(1) assms(1) that [of n \<sigma>] show ?thesis by (simp add: get_node_def)
next
  case None
  from node_by_id_row [OF assms(2,3)] assms(4)
  obtain r where r: "fst (fetchone (NODE_BY_ID_SQL (conn \<sigma>) i)) = Some r" "row_n r = m"
    by auto
  let ?n = "Node_init r"
  let ?\<sigma>1 = "if is_available ?n
             then \<sigma>\<lparr>node_id_to_node_cache := (node_id_to_node_cache \<sigma>)(id' ?n \<mapsto> ?n)\<rparr> else \<sigma>"
  from None r have g: "get_node \<sigma> i = (Some ?n, ?\<sigma>1)" by (simp add: get_node_def Let_def)
  from r assms(3,4,5) have idn: "id' ?n = i" and nmn: "name ?n = Some nm" by simp_all
  from assms(1,3,4,5) r have "cache_current ?\<sigma>1"
    unfolding cache_current_def by auto
  with g idn nmn that [of ?n ?\<sigma>1] show ?thesis by simp
qed

lemma for_parents_skip:
  "for_parents rec \<sigma> rows ret =
   for_parents rec \<sigma> (filter (\<lambda>r. n_status (row_n r) = ''AVAILABLE'') rows) ret"
proof (induction rows arbitrary: \<sigma> ret)
  case Nil
  show ?case by simp
next
  case (Cons r rows)
  show ?case
  proof (cases "n_status (row_n r) = ''AVAILABLE''")
    case True
    then have av: "is_available (Node_init r)" by (simp add: is_available_def)
    show ?thesis
    proof (cases "rec \<sigma> (id' (Node_init r))")
      case None
      with True av show ?thesis by simp
    next
      case (Some a)
      obtain res \<sigma>1 where a: "a = (res, \<sigma>1)" by (cases a)
      show ?thesis
      proof (cases res)
        case (Inl e)
        with True av Some a show ?thesis by simp
      next
        case (Inr ps)
        with True av Some a Cons.IH [of \<sigma>1 "ret @ ps"] show ?thesis by simp
      qed
    qed
  next
    case False
    then have "\<not> is_available (Node_init r)" by (simp add: is_available_def)
    with False Cons.IH [of \<sigma> ret] show ?thesis by simp
  qed
qed

lemma os_path_join_plain:
  assumes "plain_name nm" "sfx \<noteq> []" "hd sfx \<noteq> CHR ''/''"
  shows "os_path_join nm sfx = nm @ ''/'' @ sfx"
proof -
  from assms(1) have "nm \<noteq> []" "last nm \<noteq> CHR ''/''"
    by (auto simp: plain_name_def) (metis last_in_set)
  moreover from assms(2,3) have "take 1 sfx \<noteq> ''/''" by (cases sfx) auto
  ultimately show ?thesis by (simp add: os_path_join_def)
qed

lemma all_path_only_route:
  assumes pk: "distinct (map n_id (t_nodes s))"
  shows "only_route s (root_id \<sigma>) i ups \<Longrightarrow> conn \<sigma> = s \<Longrightarrow> cache_current \<sigma> \<Longrightarrow>
     sfx \<noteq> [] \<Longrightarrow> hd sfx \<noteq> CHR ''/'' \<Longrightarrow> length ups < k \<Longrightarrow>
     \<exists>\<sigma>'. all_path k \<sigma> i (Some sfx) = Some (Inr [path_of (rev ups @ [sfx])], \<sigma>') \<and>
          conn \<sigma>' = s \<and> root_id \<sigma>' = root_id \<sigma> \<and> cache_current \<sigma>'"
proof (induction ups arbitrary: i sfx \<sigma> k)
  case Nil
  from Nil.prems(6) obtain k' where k: "k = Suc k'" by (cases k) auto
  from Nil.prems(1) have "i = root_id \<sigma>" by simp
  with Nil.prems(2,3) show ?case by (simp add: k path_of_def)
next
  case (Cons nm ups)
  from Cons.prems(6) obtain k' where k: "k = Suc k'" and len: "length ups < k'"
    by (cases k) auto
  from Cons.prems(1) have nr: "i \<noteq> root_id \<sigma>" and pn: "plain_name nm" by simp_all
  from Cons.prems(1) obtain m where m: "m \<in> set (t_nodes s)" "n_id m = i" "n_name m = Some nm"
    by auto
  from Cons.prems(1) obtain r where
    rows: "filter (\<lambda>r. n_status (row_n r) = ''AVAILABLE'') (PARENTS_SQL s i) = [r]"
    and up: "only_route s (root_id \<sigma>) (n_id (row_n r)) ups"
    by (auto split: list.splits)
  from pk m Cons.prems(2,3)
  obtain n \<sigma>1 where g: "get_node \<sigma> i = (Some n, \<sigma>1)" "id' n = i" "name n = Some nm"
    "cache_current \<sigma>1" "conn \<sigma>1 = s" "root_id \<sigma>1 = root_id \<sigma>"
    using get_node_named [of \<sigma> m i nm] by auto
  let ?sfx = "nm @ ''/'' @ sfx"
  have j: "os_path_join nm sfx = ?sfx"
    using os_path_join_plain [OF pn Cons.prems(4,5)] .
  from pn have s1: "?sfx \<noteq> []" "hd ?sfx \<noteq> CHR ''/''"
    by (auto simp: plain_name_def hd_append) (metis hd_in_set)
  from up g(6) have up1: "only_route s (root_id \<sigma>1) (n_id (row_n r)) ups" by simp
  from Cons.IH [OF up1 g(5) g(4) s1 len]
  obtain \<sigma>' where rec: "all_path k' \<sigma>1 (n_id (row_n r)) (Some ?sfx) =
      Some (Inr [path_of (rev ups @ [?sfx])], \<sigma>')"
    and st: "conn \<sigma>' = s" "root_id \<sigma>' = root_id \<sigma>1" "cache_current \<sigma>'" by blast
  from rows have "r \<in> set (filter (\<lambda>r. n_status (row_n r) = ''AVAILABLE'') (PARENTS_SQL s i))"
    by simp
  then have av: "n_status (row_n r) = ''AVAILABLE''" by simp
  have "for_parents (\<lambda>\<sigma>' i. all_path k' \<sigma>' i (Some ?sfx)) \<sigma>1 (PARENTS_SQL s i) [] =
      for_parents (\<lambda>\<sigma>' i. all_path k' \<sigma>' i (Some ?sfx)) \<sigma>1 [r] []"
    by (subst for_parents_skip) (simp only: rows)
  also have "\<dots> = Some (Inr [path_of (rev ups @ [?sfx])], \<sigma>')"
    using rec av by (simp add: is_available_def)
  finally have "for_parents (\<lambda>\<sigma>' i. all_path k' \<sigma>' i (Some ?sfx)) \<sigma>1 (PARENTS_SQL s i) [] =
      Some (Inr [path_of (rev ups @ [?sfx])], \<sigma>')" .
  with nr g j Cons.prems(4) have "all_path k \<sigma> i (Some sfx) =
      Some (Inr [path_of (rev ups @ [?sfx])], \<sigma>')"
    by (simp add: k)
  with st g(6) show ?case by (simp add: path_of_def)
qed

text \<open>
  C8. Let a node other than the root have a plain name and exactly two available rows in
  its parents query, for the nodes \<open>a\<close> and \<open>b\<close>, and let each of them have one
  route only to the root through available parents. Then, the ids being keys and the id
  cache current, \<^verbatim>\<open>all_path\<close> of the node returns exactly the two paths from the root to the
  node, the one through \<open>a\<close> first, once the depth allowed exceeds the length of both
  routes. Parents that are not available contribute nothing.
\<close>

theorem all_path_two_parents:
  assumes "primary_keys (conn \<sigma>)"
    and "cache_current \<sigma>"
    and "node_id \<noteq> root_id \<sigma>"
    and "\<exists>m \<in> set (t_nodes (conn \<sigma>)). n_id m = node_id \<and> n_name m = Some nm"
    and "plain_name nm"
    and "map (\<lambda>r. n_id (row_n r))
           (filter (\<lambda>r. n_status (row_n r) = ''AVAILABLE'') (PARENTS_SQL (conn \<sigma>) node_id)) = [a, b]"
    and "only_route (conn \<sigma>) (root_id \<sigma>) a ups_a"
    and "only_route (conn \<sigma>) (root_id \<sigma>) b ups_b"
    and "length ups_a < k" and "length ups_b < k"
  shows "\<exists>\<sigma>'. all_path (Suc k) \<sigma> node_id None =
           Some (Inr [path_of (rev ups_a @ [nm]), path_of (rev ups_b @ [nm])], \<sigma>')"
proof -
  let ?s = "conn \<sigma>"
  from assms(1) have pk: "distinct (map n_id (t_nodes ?s))" by (simp add: primary_keys_def)
  from assms(4) obtain m where m: "m \<in> set (t_nodes ?s)" "n_id m = node_id" "n_name m = Some nm"
    by auto
  from get_node_named [OF assms(2) pk m]
  obtain n \<sigma>1 where g: "get_node \<sigma> node_id = (Some n, \<sigma>1)" "id' n = node_id"
    "name n = Some nm" "cache_current \<sigma>1" "conn \<sigma>1 = ?s" "root_id \<sigma>1 = root_id \<sigma>"
    by blast
  from assms(6) obtain ra rb where
    rows: "filter (\<lambda>r. n_status (row_n r) = ''AVAILABLE'') (PARENTS_SQL ?s node_id) = [ra, rb]"
    and ids: "n_id (row_n ra) = a" "n_id (row_n rb) = b"
    by auto
  from assms(5) have s1: "nm \<noteq> []" "hd nm \<noteq> CHR ''/''"
    by (auto simp: plain_name_def) (metis hd_in_set)
  from assms(7) g(6) have "only_route ?s (root_id \<sigma>1) a ups_a" by simp
  from all_path_only_route [OF pk this g(5) g(4) s1 assms(9)]
  obtain \<sigma>2 where pa: "all_path k \<sigma>1 a (Some nm) = Some (Inr [path_of (rev ups_a @ [nm])], \<sigma>2)"
    and st2: "conn \<sigma>2 = ?s" "root_id \<sigma>2 = root_id \<sigma>1" "cache_current \<sigma>2" by blast
  from assms(8) g(6) st2 have "only_route ?s (root_id \<sigma>2) b ups_b" by simp
  from all_path_only_route [OF pk this st2(1) st2(3) s1 assms(10)]
  obtain \<sigma>3 where pb: "all_path k \<sigma>2 b (Some nm) = Some (Inr [path_of (rev ups_b @ [nm])], \<sigma>3)"
    by blast
  from rows have "set [ra, rb] =
      set (filter (\<lambda>r. n_status (row_n r) = ''AVAILABLE'') (PARENTS_SQL ?s node_id))" by simp
  then have av: "n_status (row_n ra) = ''AVAILABLE''" "n_status (row_n rb) = ''AVAILABLE''"
    by auto
  have "for_parents (\<lambda>\<sigma>' i. all_path k \<sigma>' i (Some nm)) \<sigma>1 (PARENTS_SQL ?s node_id) [] =
      for_parents (\<lambda>\<sigma>' i. all_path k \<sigma>' i (Some nm)) \<sigma>1 [ra, rb] []"
    by (subst for_parents_skip) (simp only: rows)
  also have "\<dots> = Some (Inr [path_of (rev ups_a @ [nm]), path_of (rev ups_b @ [nm])], \<sigma>3)"
    using ids pa pb av by (simp add: is_available_def)
  finally have "for_parents (\<lambda>\<sigma>' i. all_path k \<sigma>' i (Some nm)) \<sigma>1 (PARENTS_SQL ?s node_id) [] =
      Some (Inr [path_of (rev ups_a @ [nm]), path_of (rev ups_b @ [nm])], \<sigma>3)" .
  with assms(3) g have "all_path (Suc k) \<sigma> node_id None =
      Some (Inr [path_of (rev ups_a @ [nm]), path_of (rev ups_b @ [nm])], \<sigma>3)"
    by simp
  then show ?thesis by blast
qed

lemma fresh_current: "cache_current (fresh s rid)"
  by (simp add: cache_current_def fresh_def)

theorem all_path_two_parents_witness:
  "map_option fst (all_path 3 (fresh drive ''r'') ''F'' None) = Some (Inr [''/a/f'', ''/b/f''])"
proof -
  let ?\<sigma> = "fresh drive ''r''"
  from drive_keys have k: "primary_keys (conn ?\<sigma>)" by simp
  have nr: "''F'' \<noteq> root_id ?\<sigma>" by (simp add: fresh_def)
  have m: "\<exists>m \<in> set (t_nodes (conn ?\<sigma>)). n_id m = ''F'' \<and> n_name m = Some ''f''"
    by (simp add: fresh_def drive_def mk_node_def)
  have pn: "plain_name ''f''" by (simp add: plain_name_def)
  have ps: "map (\<lambda>r. n_id (row_n r))
      (filter (\<lambda>r. n_status (row_n r) = ''AVAILABLE'') (PARENTS_SQL (conn ?\<sigma>) ''F'')) = [''A'', ''B'']"
    by (simp add: PARENTS_SQL_def drive_defs)
  have ra: "only_route (conn ?\<sigma>) (root_id ?\<sigma>) ''A'' [''a'']"
    by (simp add: plain_name_def PARENTS_SQL_def drive_defs)
  have rb: "only_route (conn ?\<sigma>) (root_id ?\<sigma>) ''B'' [''b'']"
    by (simp add: plain_name_def PARENTS_SQL_def drive_defs)
  have l: "length [''a''] < (2::nat)" "length [''b''] < (2::nat)" by simp_all
  from all_path_two_parents [OF k fresh_current nr m pn ps ra rb l]
  show ?thesis by (auto simp: path_of_def numeral_3_eq_3)
qed

subsection \<open>What the id cache holds\<close>

lemma kept_update:
  "kept \<sigma> \<Longrightarrow> is_available n \<Longrightarrow>
   kept (\<sigma>\<lparr>node_id_to_node_cache := (node_id_to_node_cache \<sigma>)(i \<mapsto> n)\<rparr>)"
  by (simp add: kept_def id_cache_available_def root_available_or_absent_def)

lemma kept_path_update:
  "kept (\<sigma>\<lparr>path_to_node_id_cache := x\<rparr>) = kept \<sigma>"
  by (simp add: kept_def id_cache_available_def root_available_or_absent_def)

lemma get_node_kept: "kept \<sigma> \<Longrightarrow> kept (snd (get_node \<sigma> i))"
  by (auto simp: get_node_def Let_def kept_update split: option.splits)

lemma get_root_node_available:
  assumes "kept \<sigma>" "get_node \<sigma> (root_id \<sigma>) = (Some r, \<sigma>1)"
  shows "is_available r"
proof (cases "node_id_to_node_cache \<sigma> (root_id \<sigma>)")
  case (Some n)
  with assms show ?thesis by (auto simp: get_node_def kept_def id_cache_available_def)
next
  case None
  with assms show ?thesis
    by (auto simp: get_node_def kept_def root_available_or_absent_def is_available_def Let_def
        split: option.splits)
qed

lemma resolve_kept_aux: "kept \<sigma> \<Longrightarrow> \<not> trash \<Longrightarrow> kept (snd (resolve \<sigma> path trash))"
proof (induction \<sigma> path trash rule: resolve.induct)
  case (1 \<sigma> path trash)
  note kept0 = "1.prems"(1) and nt = "1.prems"(2)
  show ?case
  proof (cases "path_to_node_id_cache \<sigma> path")
    case (Some i)
    obtain r \<sigma>1 where g: "get_node \<sigma> i = (r, \<sigma>1)" by (cases "get_node \<sigma> i")
    with get_node_kept [OF kept0, of i] have "kept \<sigma>1" by simp
    with Some g show ?thesis by (subst resolve.simps) simp
  next
    case None
    show ?thesis
    proof (cases "snd (os_path_split path) = []")
      case True
      obtain r \<sigma>1 where g: "get_node \<sigma> (root_id \<sigma>) = (r, \<sigma>1)"
        by (cases "get_node \<sigma> (root_id \<sigma>)")
      with get_node_kept [OF kept0, of "root_id \<sigma>"] have k1: "kept \<sigma>1" by simp
      show ?thesis
      proof (cases r)
        case None': None
        with None True g k1 show ?thesis
          by (subst resolve.simps) (simp add: get_root_node_def)
      next
        case (Some n)
        with g kept0 have "is_available n" using get_root_node_available by blast
        with None True g k1 Some show ?thesis
          by (subst resolve.simps) (simp add: get_root_node_def kept_update kept_path_update)
      qed
    next
      case False
      obtain res \<sigma>1 where rec: "resolve \<sigma> (fst (os_path_split path)) trash = (res, \<sigma>1)"
        by (cases "resolve \<sigma> (fst (os_path_split path)) trash")
      with None False "1.IH" kept0 nt have k1: "kept \<sigma>1" by simp
      show ?thesis
      proof (cases res)
        case (Inl e)
        with None False rec k1 show ?thesis by (subst resolve.simps) simp
      next
        case (Inr found)
        show ?thesis
        proof (cases found)
          case None': None
          with None False rec k1 Inr show ?thesis by (subst resolve.simps) simp
        next
          case (Some parent)
          show ?thesis
          proof (cases "CHILD_OF_SQL (conn \<sigma>1) (snd (os_path_split path)) (id' parent)")
            case Nil
            with Some None False rec k1 Inr show ?thesis by (subst resolve.simps) simp
          next
            case (Cons row1 rest)
            with Some None False rec k1 Inr nt show ?thesis
              by (subst resolve.simps) (simp add: Let_def kept_update kept_path_update)
          qed
        qed
      qed
    qed
  qed
qed

lemma resolve_kept: "kept \<sigma> \<Longrightarrow> kept (snd (resolve \<sigma> path False))"
  by (rule resolve_kept_aux) simp_all

lemma prime_caches_kept: "kept \<sigma> \<Longrightarrow> kept (snd (prime_caches \<sigma> fp cs))"
proof (induction cs arbitrary: \<sigma>)
  case Nil
  then show ?case by simp
next
  case (Cons c cs)
  let ?\<sigma>1 = "if is_available c
             then \<sigma>\<lparr>node_id_to_node_cache := (node_id_to_node_cache \<sigma>)(id' c \<mapsto> c)\<rparr> else \<sigma>"
  from Cons.prems have k1: "kept ?\<sigma>1" by (simp add: kept_update)
  show ?case
  proof (cases "fp = None \<or> fp = Some [] \<or> name c = None")
    case True
    with Cons.IH [OF k1] k1 show ?thesis by (auto simp: Let_def split: option.splits)
  next
    case False
    then obtain p nm where f: "fp = Some p" "p \<noteq> []" "name c = Some nm" by auto
    let ?\<sigma>2 = "?\<sigma>1\<lparr>path_to_node_id_cache := (path_to_node_id_cache ?\<sigma>1)(p @ ''/'' @ nm \<mapsto> id' c)\<rparr>"
    from k1 have "kept ?\<sigma>2" by (simp only: kept_path_update)
    from Cons.IH [OF this] f show ?thesis by (simp add: Let_def)
  qed
qed

lemma list_children_kept:
  assumes "kept \<sigma>"
  shows "kept (snd (list_children \<sigma> fid trash fp))"
proof -
  let ?ns = "filter (\<lambda>n. is_available n \<or> trash) (map Node_init (CHILDREN_SQL (conn \<sigma>) fid))"
  let ?cs = "filter (\<lambda>n. \<not> is_file n \<and> is_folder n) ?ns @ filter is_file ?ns"
  obtain r \<sigma>1 where p: "prime_caches \<sigma> fp ?cs = (r, \<sigma>1)"
    by (cases "prime_caches \<sigma> fp ?cs")
  with prime_caches_kept [OF assms, of fp ?cs] have "kept \<sigma>1" by simp
  with p show ?thesis by (cases r) (simp_all add: list_children_def Let_def)
qed

lemma list_trashed_children_kept:
  assumes "kept \<sigma>"
  shows "kept (snd (list_trashed_children \<sigma> fid))"
proof -
  obtain r \<sigma>1 where p: "list_children \<sigma> fid True None = (r, \<sigma>1)"
    by (cases "list_children \<sigma> fid True None")
  with list_children_kept [OF assms, of fid True None] have "kept \<sigma>1" by simp
  with p show ?thesis
    by (cases r) (simp_all add: list_trashed_children_def split: prod.splits)
qed

lemma resolve_id_state: "snd (resolve_id \<sigma> path trash) = snd (resolve \<sigma> path trash)"
proof -
  obtain r \<sigma>1 where p: "resolve \<sigma> path trash = (r, \<sigma>1)" by (cases "resolve \<sigma> path trash")
  show ?thesis
  proof (cases r)
    case (Inl e)
    with p show ?thesis by (simp add: resolve_id_def)
  next
    case (Inr found)
    with p show ?thesis by (cases found) (simp_all add: resolve_id_def)
  qed
qed

lemma reached_kept: "reached \<sigma>0 \<sigma> \<Longrightarrow> kept \<sigma>0 \<Longrightarrow> kept \<sigma>"
proof (induction rule: reached.induct)
  case start
  then show ?case .
next
  case (by_get_node \<sigma> i)
  then show ?case by (simp add: get_node_kept)
next
  case (by_get_root_node \<sigma>)
  then show ?case by (simp add: get_root_node_def get_node_kept)
next
  case (by_resolve \<sigma> path)
  then show ?case by (simp add: resolve_kept)
next
  case (by_resolve_id \<sigma> path)
  then show ?case by (simp add: resolve_id_state resolve_kept)
next
  case (by_list_children \<sigma> folder_id trash fp)
  then show ?case by (simp add: list_children_kept)
next
  case (by_list_trashed_children \<sigma> folder_id)
  then show ?case by (simp add: list_trashed_children_kept)
next
  case (by_all_path \<sigma> k node_id path_suffix res \<sigma>')
  from by_all_path.IH [OF by_all_path.prems] have "kept \<sigma>" .
  from all_path_invariant [where P = kept, OF get_node_kept this by_all_path.hyps(2)]
  show ?case .
qed

lemma resolve_caches_path:
  assumes "path_to_node_id_cache \<sigma> path = None" "resolve \<sigma> path trash = (Inr (Some n), \<sigma>')"
  shows "path_to_node_id_cache \<sigma>' path = Some (id' n)"
proof (cases "snd (os_path_split path) = []")
  case True
  obtain r \<sigma>1 where g: "get_root_node \<sigma> = (r, \<sigma>1)" by (cases "get_root_node \<sigma>")
  with assms True show ?thesis
    by (cases r) (auto simp: resolve.simps [of \<sigma> path])
next
  case False
  obtain res \<sigma>1 where rec: "resolve \<sigma> (fst (os_path_split path)) trash = (res, \<sigma>1)"
    by (cases "resolve \<sigma> (fst (os_path_split path)) trash")
  show ?thesis
  proof (cases res)
    case (Inl e)
    with assms False rec show ?thesis by (simp add: resolve.simps [of \<sigma> path])
  next
    case (Inr found)
    show ?thesis
    proof (cases found)
      case None
      with assms False rec Inr show ?thesis by (simp add: resolve.simps [of \<sigma> path])
    next
      case (Some parent)
      show ?thesis
      proof (cases "CHILD_OF_SQL (conn \<sigma>1) (snd (os_path_split path)) (id' parent)")
        case Nil
        with assms False rec Inr Some show ?thesis by (simp add: resolve.simps [of \<sigma> path])
      next
        case (Cons row1 rest)
        with assms False rec Inr Some show ?thesis
          by (auto simp: resolve.simps [of \<sigma> path] Let_def split: if_splits)
      qed
    qed
  qed
qed

text \<open>
  C1, as the code has it. From a state whose id cache holds available nodes only (the
  empty one for instance), on a store whose root row is available or absent, every state
  reached by calls of \<^verbatim>\<open>get_node\<close>, \<^verbatim>\<open>get_root_node\<close>, \<^verbatim>\<open>list_children\<close>,
  \<^verbatim>\<open>list_trashed_children\<close>, \<^verbatim>\<open>all_path\<close>, and \<^verbatim>\<open>resolve\<close> and \<^verbatim>\<open>resolve_id\<close> in normal mode,
  has available nodes only in its id cache. And a call of \<^verbatim>\<open>resolve\<close>, in either mode, that
  misses the path cache and returns a node has put the path in the path cache, under the
  id of that node: lookups in trash mode do not pass the path cache by.
\<close>

theorem id_cache_of_reached_states:
  assumes "id_cache_available \<sigma>0" and "root_available_or_absent \<sigma>0" and "reached \<sigma>0 \<sigma>"
  shows "id_cache_available \<sigma> \<and>
         (path_to_node_id_cache \<sigma> path = None \<and> resolve \<sigma> path trash = (Inr (Some n), \<sigma>') \<longrightarrow>
            path_to_node_id_cache \<sigma>' path = Some (id' n))"
proof -
  from assms(1,2) have "kept \<sigma>0" by (simp add: kept_def)
  from reached_kept [OF assms(3) this] have "id_cache_available \<sigma>" by (simp add: kept_def)
  with resolve_caches_path show ?thesis by blast
qed

theorem id_cache_of_reached_states_witness:
  "id_cache_available (snd (resolve (snd (list_children (fresh drive ''r'') ''A'' True (Some ''/a'')))
      ''/a/f'' False)) \<and>
   path_to_node_id_cache (snd (resolve (fresh drive ''r'') ''/t'' True)) ''/t'' = Some ''T''"
proof -
  let ?\<sigma>0 = "fresh drive ''r''"
  let ?\<sigma>1 = "snd (list_children ?\<sigma>0 ''A'' True (Some ''/a''))"
  let ?\<sigma>2 = "snd (resolve ?\<sigma>1 ''/a/f'' False)"
  have a: "id_cache_available ?\<sigma>0" by (simp add: id_cache_available_def fresh_def)
  have r: "root_available_or_absent ?\<sigma>0"
    by (simp add: root_available_or_absent_def NODE_BY_ID_SQL_def drive_defs)
  have "reached ?\<sigma>0 ?\<sigma>1" by (rule reached.by_list_children) (rule reached.start)
  then have re: "reached ?\<sigma>0 ?\<sigma>2" by (rule reached.by_resolve)
  have "\<exists>n. fst (resolve ?\<sigma>0 ''/t'' True) = Inr (Some n) \<and> id' n = ''T''"
    by (simp add: resolve_defs drive_defs)
  then obtain n where n: "resolve ?\<sigma>0 ''/t'' True = (Inr (Some n), snd (resolve ?\<sigma>0 ''/t'' True))"
    "id' n = ''T''" by (auto simp: prod_eq_iff)
  have c: "path_to_node_id_cache ?\<sigma>0 ''/t'' = None" by (simp add: fresh_def)
  from id_cache_of_reached_states [OF a r re]
  have one: "id_cache_available ?\<sigma>2" by blast
  from id_cache_of_reached_states [OF a r reached.start, of "''/t''" True n "snd (resolve ?\<sigma>0 ''/t'' True)"]
    c n
  have "path_to_node_id_cache (snd (resolve ?\<sigma>0 ''/t'' True)) ''/t'' = Some ''T''" by simp
  with one show ?thesis by blast
qed

text \<open>
  The claim as stated fails on the small drive. One call from the empty caches,
  \<^verbatim>\<open>resolve('/t', True)\<close> for the trashed file \<open>t\<close>, leaves a node of status \<^verbatim>\<open>TRASH\<close> in
  the id cache and an entry for \<^verbatim>\<open>/t\<close> in the path cache.
\<close>

theorem trash_resolve_caches_counterexample:
  "node_id_to_node_cache (fresh drive ''r'') = Map.empty \<and>
   path_to_node_id_cache (fresh drive ''r'') = Map.empty \<and>
   map_option status (node_id_to_node_cache (snd (resolve (fresh drive ''r'') ''/t'' True)) ''T'') =
     Some ''TRASH'' \<and>
   path_to_node_id_cache (snd (resolve (fresh drive ''r'') ''/t'' True)) ''/t'' = Some ''T''"
proof -
  have "map_option status (node_id_to_node_cache (snd (resolve (fresh drive ''r'') ''/t'' True)) ''T'') =
     Some ''TRASH'' \<and>
   path_to_node_id_cache (snd (resolve (fresh drive ''r'') ''/t'' True)) ''/t'' = Some ''T''"
    by (simp add: resolve_defs drive_defs)
  then show ?thesis by (simp add: fresh_def)
qed

end
